theory Spec2Isabelle
  imports Complex_Main "HOL-Library.Word"
begin

unbundle bit_operations_syntax

section \<open>Bytes, buffers and JavaScript integer conversions\<close>

type_synonym byte = "8 word"
type_synonym buffer = "byte list"

text \<open>
  The bitwise operators of JavaScript first convert their operands to signed 32-bit
  integers (ToInt32).
\<close>

definition toInt32 :: "int \<Rightarrow> int" where
  "toInt32 x = signed_take_bit 31 x"

text \<open>\<open>Buffer.prototype.slice(start, end)\<close>, for \<open>0 \<le> start\<close>: clamps to the buffer.\<close>

definition slice :: "buffer \<Rightarrow> nat \<Rightarrow> nat \<Rightarrow> buffer" where
  "slice buf start end = take (end - start) (drop start buf)"

text \<open>The messages of the \<open>Error\<close> objects thrown by the services.\<close>

datatype error =
    FrameTooShort
  | InvalidSOFMarker
  | IncompleteFrame
  | ChecksumMismatch
  | LengthEncodingTooLong
  | SessionMessageTooShort
  | PresentationMessageTooShort
  | CommandTooShort
  | InvalidHelloLength
  | InvalidClientAuthLength
  | DivisionByZero
  | CannotMixBigInt
  | CannotConvertNull

fun message :: "error \<Rightarrow> string" where
  "message FrameTooShort = ''Frame too short''"
| "message InvalidSOFMarker = ''Invalid SOF marker''"
| "message IncompleteFrame = ''Incomplete frame''"
| "message ChecksumMismatch = ''Checksum mismatch''"
| "message LengthEncodingTooLong = ''Length encoding too long''"
| "message SessionMessageTooShort = ''Session message too short''"
| "message PresentationMessageTooShort = ''Presentation message too short''"
| "message CommandTooShort = ''Command too short''"
| "message InvalidHelloLength = ''Invalid Hello message length''"
| "message InvalidClientAuthLength = ''Invalid Client Authentication message length''"
| "message DivisionByZero = ''Division by zero''"
| "message CannotMixBigInt = ''Cannot mix BigInt and other types, use explicit conversions''"
| "message CannotConvertNull = ''Cannot convert null to a BigInt''"

section \<open>protocolService.js: the frame codec\<close>

definition SOF_MARKER :: byte where
  "SOF_MARKER = 0xAA"

text \<open>
  \<open>encodeLength\<close>: the \<open>while (length > 0)\<close> loop. \<open>length & 0x7F\<close> and
  \<open>length >>= 7\<close> work on the signed 32-bit value of \<open>length\<close>; \<open>Buffer.from\<close> keeps
  the low eight bits of every array element.
\<close>

function encodeLength_loop :: "int \<Rightarrow> int list \<Rightarrow> int list" where
  "encodeLength_loop len bytes =
     (if len > 0 then
        let byte = toInt32 len AND 0x7F;
            len' = drop_bit 7 (toInt32 len);
            byte' = (if len' > 0 then byte OR 0x80 else byte)
        in encodeLength_loop len' (bytes @ [byte'])
      else bytes)"
  by pat_completeness auto
termination
proof (relation "measure (\<lambda>(len, bytes). nat len)")
  show "wf (measure (\<lambda>(len, bytes). nat len))" by simp
next
  fix len :: int and bytes :: "int list" and x xa xb
  assume pos: "0 < len" and xa: "xa = drop_bit 7 (toInt32 len)"
  have "toInt32 len \<le> len"
    unfolding toInt32_def using pos by (simp add: signed_take_bit_int_less_eq_self_iff)
  moreover have "drop_bit 7 (toInt32 len) < len"
  proof (cases "toInt32 len \<le> 0")
    case True
    then have "drop_bit 7 (toInt32 len) \<le> 0" by (simp add: drop_bit_eq_div)
    with pos show ?thesis by simp
  next
    case False
    then have "drop_bit 7 (toInt32 len) < toInt32 len" by (simp add: drop_bit_eq_div)
    with \<open>toInt32 len \<le> len\<close> show ?thesis by simp
  qed
  ultimately show "((xa, bytes @ [xb]), (len, bytes)) \<in> measure (\<lambda>(len, bytes). nat len)"
    using pos xa by simp
qed

definition encodeLength :: "int \<Rightarrow> buffer" where
  "encodeLength len =
     (if len = 0 then [0x00]
      else map word_of_int (encodeLength_loop len []))"

text \<open>
  \<open>decodeLength\<close>: the loop over \<open>offset\<close>, with the \<open>break\<close> on a byte without
  continuation bit and the throw once three bytes with continuation bit were read.
  The shift is at most 14 when it is applied, so \<open><<\<close> and \<open>|=\<close> never leave the
  32-bit range.
\<close>

function decodeLength_loop :: "buffer \<Rightarrow> nat \<Rightarrow> nat \<Rightarrow> nat \<Rightarrow> error + (nat \<times> nat)" where
  "decodeLength_loop buf len offset shift =
     (if offset < length buf then
        let byte = buf ! offset;
            len' = len OR push_bit shift (unat byte AND 0x7F);
            offset' = offset + 1;
            shift' = shift + 7
        in if byte AND 0x80 = 0 then Inr (len', offset')
           else if shift' \<ge> 21 then Inl LengthEncodingTooLong
           else decodeLength_loop buf len' offset' shift'
      else Inr (len, offset))"
  by pat_completeness auto
termination
  by (relation "measure (\<lambda>(buf, len, offset, shift). length buf - offset)") auto

definition decodeLength :: "buffer \<Rightarrow> nat \<Rightarrow> error + (nat \<times> nat)" where
  "decodeLength buf startOffset = decodeLength_loop buf 0 startOffset 0"

text \<open>
  \<open>calculateChecksum\<close>: the sum is a JavaScript number (exact here), \<open>~\<close> and \<open>&\<close>
  convert it to 32 bits.
\<close>

definition calculateChecksum :: "buffer \<Rightarrow> buffer" where
  "calculateChecksum buf =
     (let sum = foldl (\<lambda>s b. s + uint b) 0 buf;
          checksum = toInt32 (NOT (toInt32 sum) + 1) AND 0xFFFF
      in [word_of_int (drop_bit 8 checksum AND 0xFF), word_of_int (checksum AND 0xFF)])"

definition createFrame :: "buffer \<Rightarrow> buffer" where
  "createFrame payload =
     (let lengthBytes = encodeLength (int (length payload));
          frameWithoutChecksum = [SOF_MARKER] @ lengthBytes @ payload;
          checksum = calculateChecksum frameWithoutChecksum
      in frameWithoutChecksum @ checksum)"

text \<open>\<open>parseFrame\<close> returns the payload and \<open>totalLength\<close>, or the error thrown.\<close>

definition parseFrame :: "buffer \<Rightarrow> error + (buffer \<times> nat)" where
  "parseFrame buf =
     (if length buf < 4 then Inl FrameTooShort
      else if buf ! 0 \<noteq> SOF_MARKER then Inl InvalidSOFMarker
      else case decodeLength buf 1 of
             Inl e \<Rightarrow> Inl e
           | Inr (payloadLength, offset) \<Rightarrow>
               if length buf < offset + payloadLength + 2 then Inl IncompleteFrame
               else
                 let payload = slice buf offset (offset + payloadLength);
                     receivedChecksum = slice buf (offset + payloadLength) (offset + payloadLength + 2);
                     frameWithoutChecksum = slice buf 0 (offset + payloadLength);
                     calculatedChecksum = calculateChecksum frameWithoutChecksum
                 in if receivedChecksum \<noteq> calculatedChecksum then Inl ChecksumMismatch
                    else Inr (payload, offset + payloadLength + 2))"


section \<open>protocolService.js: session, presentation and application layers\<close>

text \<open>
  \<open>readUInt16BE\<close>, \<open>readUInt32BE\<close> and the \<open>write\<close> functions of \<open>Buffer\<close>. Every
  caller checks the length of the buffer before it reads.
\<close>

definition readUInt16BE :: "buffer \<Rightarrow> nat \<Rightarrow> 16 word" where
  "readUInt16BE buf off = push_bit 8 (ucast (buf ! off)) OR ucast (buf ! (off + 1))"

definition writeUInt16BE :: "16 word \<Rightarrow> buffer" where
  "writeUInt16BE v = [ucast (drop_bit 8 v), ucast v]"

definition readUInt32BE :: "buffer \<Rightarrow> nat \<Rightarrow> 32 word" where
  "readUInt32BE buf off =
     push_bit 24 (ucast (buf ! off)) OR push_bit 16 (ucast (buf ! (off + 1)))
       OR push_bit 8 (ucast (buf ! (off + 2))) OR ucast (buf ! (off + 3))"

definition writeUInt32BE :: "32 word \<Rightarrow> buffer" where
  "writeUInt32BE v = [ucast (drop_bit 24 v), ucast (drop_bit 16 v), ucast (drop_bit 8 v), ucast v]"

definition writeBigUInt64BE :: "64 word \<Rightarrow> buffer" where
  "writeBigUInt64BE v =
     [ucast (drop_bit 56 v), ucast (drop_bit 48 v), ucast (drop_bit 40 v), ucast (drop_bit 32 v),
      ucast (drop_bit 24 v), ucast (drop_bit 16 v), ucast (drop_bit 8 v), ucast v]"

text \<open>\<open>getMessageTypes\<close>, \<open>getCommands\<close>, \<open>getControlActions\<close>, \<open>getNotificationTypes\<close>.\<close>

definition REGULAR :: byte where "REGULAR = 0x00"
definition HELLO :: byte where "HELLO = 0x01"
definition CHALLENGE :: byte where "CHALLENGE = 0x02"
definition CLIENT_AUTH :: byte where "CLIENT_AUTH = 0x03"
definition NOTIFICATION :: byte where "NOTIFICATION = 0x80"

definition HEARTBEAT :: byte where "HEARTBEAT = 0x00"
definition CONTROL_DEVICE :: byte where "CONTROL_DEVICE = 0x01"
definition ACK_ERROR :: byte where "ACK_ERROR = 0x02"
definition RESET_BLADE_TIME :: byte where "RESET_BLADE_TIME = 0x03"

definition STOP :: byte where "STOP = 0x00"
definition START :: byte where "START = 0x01"
definition HOME :: byte where "HOME = 0x02"

definition DEVICE_STATUS :: byte where "DEVICE_STATUS = 0x00"
definition POSITION_UPDATE :: byte where "POSITION_UPDATE = 0x01"

text \<open>
  \<open>createSessionMessage(messageType, payload, hmac = null)\<close>: a missing HMAC is replaced
  by the bypass value.
\<close>

definition createSessionMessage :: "byte \<Rightarrow> buffer \<Rightarrow> buffer option \<Rightarrow> buffer" where
  "createSessionMessage messageType payload hmac =
     (let hmac' = (case hmac of None \<Rightarrow> [0xFA, 0xDE, 0xDB, 0xED] | Some h \<Rightarrow> h)
      in hmac' @ [messageType] @ payload)"

record session_message =
  hmac :: buffer
  messageType :: byte
  payload :: buffer

definition parseSessionMessage :: "buffer \<Rightarrow> error + session_message" where
  "parseSessionMessage buf =
     (if length buf < 5 then Inl SessionMessageTooShort
      else Inr \<lparr>hmac = slice buf 0 4, messageType = buf ! 4, payload = drop 5 buf\<rparr>)"

definition createPresentationMessage :: "16 word \<Rightarrow> buffer \<Rightarrow> buffer" where
  "createPresentationMessage iin pl = writeUInt16BE iin @ pl"

record presentation_message =
  iin :: "16 word"
  pres_payload :: buffer

definition parsePresentationMessage :: "buffer \<Rightarrow> error + presentation_message" where
  "parsePresentationMessage buf =
     (if length buf < 2 then Inl PresentationMessageTooShort
      else Inr \<lparr>iin = readUInt16BE buf 0, pres_payload = drop 2 buf\<rparr>)"

definition createCommand :: "byte \<Rightarrow> buffer \<Rightarrow> buffer" where
  "createCommand cmd pl = [cmd] @ pl"

record command_message =
  command :: byte
  cmd_payload :: buffer

definition parseCommand :: "buffer \<Rightarrow> error + command_message" where
  "parseCommand buf =
     (if length buf < 1 then Inl CommandTooShort
      else Inr \<lparr>command = buf ! 0, cmd_payload = drop 1 buf\<rparr>)"

section \<open>cryptoService.js\<close>

definition DH_GENERATOR :: nat where "DH_GENERATOR = 5"
definition DH_MODULUS :: nat where "DH_MODULUS = 0xFFFFFFFB"
definition PSK :: "32 word" where "PSK = 0xFEED5EED"

text \<open>
  \<open>modularExponentiation\<close> computes on BigInt values, which do not overflow; its
  arguments here are never negative. The test \<open>modulus === 1n\<close> compares the number it
  is given with a BigInt and is never true. \<open>%\<close> on BigInt throws a RangeError when the
  modulus is zero.
\<close>

function modularExponentiation_loop :: "nat \<Rightarrow> nat \<Rightarrow> nat \<Rightarrow> nat \<Rightarrow> nat" where
  "modularExponentiation_loop result base exponent modulus =
     (if exponent > 0 then
        let result' = (if exponent mod 2 = 1 then (result * base) mod modulus else result);
            exponent' = drop_bit 1 exponent;
            base' = (base * base) mod modulus
        in modularExponentiation_loop result' base' exponent' modulus
      else result)"
  by pat_completeness auto
termination
  by (relation "measure (\<lambda>(result, base, exponent, modulus). exponent)")
     (auto simp: drop_bit_eq_div)

definition modularExponentiation :: "nat \<Rightarrow> nat \<Rightarrow> nat \<Rightarrow> error + nat" where
  "modularExponentiation base exponent modulus =
     (if modulus = 0 then Inl DivisionByZero
      else Inr (modularExponentiation_loop 1 (base mod modulus) exponent modulus))"

definition calculatePublicKey :: "nat \<Rightarrow> error + nat" where
  "calculatePublicKey secret = modularExponentiation DH_GENERATOR secret DH_MODULUS"

definition calculateSharedSecret :: "nat \<Rightarrow> nat \<Rightarrow> error + nat" where
  "calculateSharedSecret otherPublicKey mySecret =
     modularExponentiation otherPublicKey mySecret DH_MODULUS"

text \<open>\<open>calculateHash\<close>: \<open>>>> 0\<close> keeps the low 32 bits; the product is exact before.\<close>

definition calculateHash :: "buffer \<Rightarrow> 32 word" where
  "calculateHash pl = foldl (\<lambda>hash byte. 31 * hash + ucast byte) 0 pl"

definition calculateMAC :: "32 word \<Rightarrow> buffer \<Rightarrow> 32 word" where
  "calculateMAC key pl = calculateHash pl XOR key"

record challenge =
  serverPublicKey :: "32 word"
  nonce :: "64 word"
  authS :: "32 word"

definition createChallenge :: "nat \<Rightarrow> 32 word \<Rightarrow> 64 word \<Rightarrow> error + challenge" where
  "createChallenge serverSecret clientPublicKey n =
     (case calculatePublicKey serverSecret of
        Inl e \<Rightarrow> Inl e
      | Inr B \<Rightarrow>
          let macData = writeUInt32BE (word_of_nat B) @ writeUInt32BE clientPublicKey
                          @ writeBigUInt64BE n
          in Inr \<lparr>serverPublicKey = word_of_nat B, nonce = n, authS = calculateMAC PSK macData\<rparr>)"

text \<open>
  \<open>verifyAuth\<close> on the server (\<open>isServer = true\<close>). Before a HELLO the stored keys and
  the nonce are \<open>null\<close> or \<open>undefined\<close>: \<open>writeUInt32BE\<close> writes them as 0,
  \<open>writeBigUInt64BE\<close> throws a TypeError.
\<close>

definition verifyAuth :: "32 word option \<Rightarrow> 32 word option \<Rightarrow> 64 word option \<Rightarrow> 32 word \<Rightarrow> error + bool" where
  "verifyAuth publicKeyA publicKeyB n receivedAuth =
     (case n of
        None \<Rightarrow> Inl CannotMixBigInt
      | Some n' \<Rightarrow>
          let macData = writeUInt32BE (case publicKeyA of None \<Rightarrow> 0 | Some a \<Rightarrow> a)
                          @ writeUInt32BE (case publicKeyB of None \<Rightarrow> 0 | Some b \<Rightarrow> b)
                          @ writeBigUInt64BE n';
              expectedAuth = calculateMAC PSK macData
          in Inr (expectedAuth = receivedAuth))"

definition parseHelloPayload :: "buffer \<Rightarrow> error + 32 word" where
  "parseHelloPayload buf =
     (if length buf < 4 then Inl InvalidHelloLength else Inr (readUInt32BE buf 0))"

definition createChallengePayload :: "32 word \<Rightarrow> 64 word \<Rightarrow> 32 word \<Rightarrow> buffer" where
  "createChallengePayload spk n a = writeUInt32BE spk @ writeBigUInt64BE n @ writeUInt32BE a"

definition parseClientAuthPayload :: "buffer \<Rightarrow> error + 32 word" where
  "parseClientAuthPayload buf =
     (if length buf < 4 then Inl InvalidClientAuthLength else Inr (readUInt32BE buf 0))"

definition calculateHMAC :: "32 word \<Rightarrow> buffer \<Rightarrow> 32 word" where
  "calculateHMAC key pl = calculateMAC key pl"

text \<open>
  \<open>createAuthenticatedHMAC\<close>: the shared secret of a connection is \<open>null\<close> until the
  handshake has stored it; \<open>^\<close> reads \<open>null\<close> as 0.
\<close>

definition createAuthenticatedHMAC :: "32 word option \<Rightarrow> buffer \<Rightarrow> buffer" where
  "createAuthenticatedHMAC sharedSecret pl =
     writeUInt32BE (calculateHMAC (case sharedSecret of None \<Rightarrow> 0 | Some k \<Rightarrow> k) pl)"

definition getBypassHMAC :: buffer where
  "getBypassHMAC = [0xFA, 0xDE, 0xDB, 0xED]"

definition isBypassHMAC :: "buffer \<Rightarrow> bool" where
  "isBypassHMAC h = (h = getBypassHMAC)"


section \<open>Rendering of numbers in log messages\<close>

definition hexDigit :: "nat \<Rightarrow> char" where
  "hexDigit d = ''0123456789abcdef'' ! d"

text \<open>\<open>Number.prototype.toString(16)\<close> and \<open>toString(10)\<close> on a non-negative integer.\<close>

fun toString16 :: "nat \<Rightarrow> string" where
  "toString16 n = (if n < 16 then [hexDigit n] else toString16 (n div 16) @ [hexDigit (n mod 16)])"

fun toString10 :: "nat \<Rightarrow> string" where
  "toString10 n = (if n < 10 then [hexDigit n] else toString10 (n div 10) @ [hexDigit (n mod 10)])"

definition padStart :: "nat \<Rightarrow> char \<Rightarrow> string \<Rightarrow> string" where
  "padStart k c str = replicate (k - length str) c @ str"

text \<open>\<open>Buffer.prototype.toString('hex')\<close>: two digits for every byte.\<close>

definition toHex :: "buffer \<Rightarrow> string" where
  "toHex buf = concat (map (\<lambda>b. [hexDigit (unat b div 16), hexDigit (unat b mod 16)]) buf)"

text \<open>The text of \<open>k / 2\<close> for a byte \<open>k\<close>: a whole number, or one with \<open>.5\<close>.\<close>

definition halfToString :: "nat \<Rightarrow> string" where
  "halfToString k = (if even k then toString10 (k div 2) else toString10 (k div 2) @ ''.5'')"

section \<open>The TCP service (\<open>TCPService\<close>): connections and their effects\<close>

text \<open>
  The effects of a handler are the list of calls it makes, in order: writes to the
  socket, the destruction of the socket, the log rows and the rows of device data it
  asks the database to insert. The database calls are asynchronous and swallow their
  errors; time stamps are not part of the model. The text of the Position\_Update log
  row prints two floats and a date: it is kept as the three fields it prints.
\<close>

datatype severity = Information | Warning | Error

datatype log_text =
    Text string
  | PositionText "32 word" "32 word" "32 word"

datatype event =
    SocketWrite buffer
  | SocketDestroy
  | LogCommunication nat severity string log_text
  | UpdateDeviceState nat string
  | StoreTelemetryData nat rat string
  | StoreGPSData nat "32 word" "32 word" "32 word"

record auth_state =
  as_serverSecret :: "nat option"
  as_clientPublicKey :: "32 word option"
  as_nonce :: "64 word option"
  as_serverPublicKey :: "32 word option"

text \<open>
  \<open>connectionInfo\<close>: \<open>lawnmower_id\<close> is \<open>connectionInfo.lawnmower.id\<close>. The handlers
  are modelled for a connection that is in the \<open>connections\<close> map, as it is whenever
  \<open>handleData\<close> runs for it.
\<close>

record connection =
  lawnmower_id :: nat
  authenticated :: bool
  sharedSecret :: "32 word option"
  buffer :: buffer
  authState :: auth_state

definition newConnection :: "nat \<Rightarrow> connection" where
  "newConnection lid =
     \<lparr>lawnmower_id = lid, authenticated = False, sharedSecret = None, buffer = [],
      authState = \<lparr>as_serverSecret = None, as_clientPublicKey = None, as_nonce = None,
                   as_serverPublicKey = None\<rparr>\<rparr>"

text \<open>
  \<open>handleHello\<close>. The random server secret and nonce are the argument \<open>rnd\<close>. Every
  exception of the \<open>try\<close> block ends in the Auth\_Hello\_Error log row.
\<close>

definition handleHello :: "nat \<times> 64 word \<Rightarrow> connection \<Rightarrow> session_message \<Rightarrow> connection \<times> event list" where
  "handleHello rnd c sessionMsg =
     (case parseHelloPayload (payload sessionMsg) of
        Inl e \<Rightarrow>
          (c, [LogCommunication (lawnmower_id c) Error ''Auth_Hello_Error''
                 (Text (''Failed to process Hello: '' @ message e))])
      | Inr clientPublicKey \<Rightarrow>
          let serverSecret = fst rnd;
              n = snd rnd
          in case createChallenge serverSecret clientPublicKey n of
               Inl e \<Rightarrow>
                 (c, [LogCommunication (lawnmower_id c) Error ''Auth_Hello_Error''
                        (Text (''Failed to process Hello: '' @ message e))])
             | Inr ch \<Rightarrow>
                 let c' = c\<lparr>authState :=
                            \<lparr>as_serverSecret = Some serverSecret,
                             as_clientPublicKey = Some clientPublicKey,
                             as_nonce = Some n,
                             as_serverPublicKey = Some (serverPublicKey ch)\<rparr>\<rparr>;
                     challengePayload =
                       createChallengePayload (serverPublicKey ch) (nonce ch) (authS ch);
                     sessionMessage =
                       createSessionMessage CHALLENGE challengePayload (Some [0x00, 0x00, 0x00, 0x00]);
                     presentationMsg = createPresentationMessage 0 sessionMessage;
                     frame = createFrame presentationMsg
                 in (c', [SocketWrite frame,
                          LogCommunication (lawnmower_id c) Information ''Auth_Challenge_Sent''
                            (Text (''Challenge sent with g='' @ toString10 DH_GENERATOR
                                   @ '', p='' @ toString10 DH_MODULUS
                                   @ '', a='' @ toString10 (unat clientPublicKey)))]))"

definition handleClientAuth :: "connection \<Rightarrow> session_message \<Rightarrow> connection \<times> event list" where
  "handleClientAuth c sessionMsg =
     (let failed = (\<lambda>e. (c, [LogCommunication (lawnmower_id c) Error ''Auth_Client_Error''
                                (Text (''Failed to process client auth: '' @ message e)),
                              SocketDestroy]))
      in case parseClientAuthPayload (payload sessionMsg) of
           Inl e \<Rightarrow> failed e
         | Inr authC \<Rightarrow>
             (case verifyAuth (as_clientPublicKey (authState c)) (as_serverPublicKey (authState c))
                     (as_nonce (authState c)) authC of
                Inl e \<Rightarrow> failed e
              | Inr isValid \<Rightarrow>
                  if isValid then
                    (case (as_clientPublicKey (authState c), as_serverSecret (authState c)) of
                       (Some cpk, Some ss) \<Rightarrow>
                         (case calculateSharedSecret (unat cpk) ss of
                            Inl e \<Rightarrow> failed e
                          | Inr secret \<Rightarrow>
                              (c\<lparr>authenticated := True, sharedSecret := Some (word_of_nat secret)\<rparr>,
                               [LogCommunication (lawnmower_id c) Information ''Auth_Success''
                                  (Text (''Authentication successful. Shared secret: 0x''
                                         @ padStart 8 CHR ''0'' (toString16 secret)))]))
                     | _ \<Rightarrow> failed CannotConvertNull)
                  else
                    (c, [LogCommunication (lawnmower_id c) Error ''Auth_Failed''
                           (Text ''Client authentication verification failed''),
                         SocketDestroy])))"

text \<open>The command handlers. None of them changes the connection.\<close>

definition handleHeartbeat :: "connection \<Rightarrow> 16 word \<Rightarrow> buffer \<Rightarrow> event list" where
  "handleHeartbeat c i pl =
     (let responseCommand = createCommand 0x80 pl;
          presentationMsg = createPresentationMessage i responseCommand;
          h = (if authenticated c then createAuthenticatedHMAC (sharedSecret c) presentationMsg
               else getBypassHMAC);
          sessionMsg = createSessionMessage REGULAR presentationMsg (Some h);
          frame = createFrame sessionMsg
      in [SocketWrite frame,
          LogCommunication (lawnmower_id c) Information ''Heartbeat_Response''
            (Text (''Heartbeat echoed, payload length: '' @ toString10 (length pl)))])"

definition sendErrorResponse :: "connection \<Rightarrow> 16 word \<Rightarrow> string \<Rightarrow> event list" where
  "sendErrorResponse c i errorMessage =
     (let responseCommand = createCommand 0xFF (map (\<lambda>ch. word_of_nat (of_char ch)) errorMessage);
          presentationMsg = createPresentationMessage i responseCommand;
          h = (if authenticated c then createAuthenticatedHMAC (sharedSecret c) presentationMsg
               else getBypassHMAC);
          sessionMsg = createSessionMessage REGULAR presentationMsg (Some h);
          frame = createFrame sessionMsg
      in [SocketWrite frame,
          LogCommunication (lawnmower_id c) Error ''Error_Response''
            (Text (''Error response sent: '' @ errorMessage))])"

definition handleControlDevice :: "connection \<Rightarrow> 16 word \<Rightarrow> buffer \<Rightarrow> event list" where
  "handleControlDevice c i pl =
     (if length pl < 1 then sendErrorResponse c i ''Invalid control command''
      else
        let action = pl ! 0;
            (actionName, newState) =
              (if action = STOP then (''STOP'', Some ''Paused'')
               else if action = START then (''START'', Some ''Mowing'')
               else if action = HOME then (''HOME'', Some ''ReturningToStation'')
               else (''UNKNOWN'', None));
            update = (case newState of
                        Some st \<Rightarrow> [UpdateDeviceState (lawnmower_id c) st]
                      | None \<Rightarrow> []);
            responseCommand = createCommand 0x81 [];
            presentationMsg = createPresentationMessage i responseCommand;
            h = (if authenticated c then createAuthenticatedHMAC (sharedSecret c) presentationMsg
                 else getBypassHMAC);
            sessionMsg = createSessionMessage REGULAR presentationMsg (Some h);
            frame = createFrame sessionMsg
        in update @
           [SocketWrite frame,
            LogCommunication (lawnmower_id c) Information ''Control_Command''
              (Text (''Control action '' @ actionName @ '' executed, new state: ''
                     @ (case newState of Some st \<Rightarrow> st | None \<Rightarrow> ''null'')))])"

definition handleAckError :: "connection \<Rightarrow> 16 word \<Rightarrow> event list" where
  "handleAckError c i =
     (let responseCommand = createCommand 0x82 [];
          presentationMsg = createPresentationMessage i responseCommand;
          h = (if authenticated c then createAuthenticatedHMAC (sharedSecret c) presentationMsg
               else getBypassHMAC);
          sessionMsg = createSessionMessage REGULAR presentationMsg (Some h);
          frame = createFrame sessionMsg
      in [UpdateDeviceState (lawnmower_id c) ''Paused'',
          SocketWrite frame,
          LogCommunication (lawnmower_id c) Information ''Ack_Error''
            (Text ''Error acknowledged, state changed to Paused'')])"

definition handleResetBladeTime :: "connection \<Rightarrow> 16 word \<Rightarrow> event list" where
  "handleResetBladeTime c i =
     (let responseCommand = createCommand 0x83 [];
          presentationMsg = createPresentationMessage i responseCommand;
          h = (if authenticated c then createAuthenticatedHMAC (sharedSecret c) presentationMsg
               else getBypassHMAC);
          sessionMsg = createSessionMessage REGULAR presentationMsg (Some h);
          frame = createFrame sessionMsg
      in [SocketWrite frame,
          LogCommunication (lawnmower_id c) Information ''Reset_Blade_Time''
            (Text ''Blade time reset to 0'')])"

definition handleCommand :: "connection \<Rightarrow> 16 word \<Rightarrow> command_message \<Rightarrow> event list" where
  "handleCommand c i cmd =
     (if command cmd = HEARTBEAT then handleHeartbeat c i (cmd_payload cmd)
      else if command cmd = CONTROL_DEVICE then handleControlDevice c i (cmd_payload cmd)
      else if command cmd = ACK_ERROR then handleAckError c i
      else if command cmd = RESET_BLADE_TIME then handleResetBladeTime c i
      else [LogCommunication (lawnmower_id c) Warning ''Unknown_Command''
              (Text (''Unknown command: 0x'' @ toString16 (unat (command cmd))))])"

definition handleRegularMessage :: "connection \<Rightarrow> session_message \<Rightarrow> event list" where
  "handleRegularMessage c sessionMsg =
     (if \<not> authenticated c \<and> \<not> isBypassHMAC (hmac sessionMsg) then
        [LogCommunication (lawnmower_id c) Warning ''Unauthenticated_Message''
           (Text ''Received message from unauthenticated connection'')]
      else
        case parsePresentationMessage (payload sessionMsg) of
          Inl e \<Rightarrow>
            [LogCommunication (lawnmower_id c) Error ''Command_Parse_Error''
               (Text (''Failed to parse command: '' @ message e))]
        | Inr presentationMsg \<Rightarrow>
            (case parseCommand (pres_payload presentationMsg) of
               Inl e \<Rightarrow>
                 [LogCommunication (lawnmower_id c) Error ''Command_Parse_Error''
                    (Text (''Failed to parse command: '' @ message e))]
             | Inr cmd \<Rightarrow> handleCommand c (iin presentationMsg) cmd))"

text \<open>The notification handlers.\<close>

definition stateMap :: "byte \<Rightarrow> string" where
  "stateMap status =
     (if status = 0x00 then ''StationCharging''
      else if status = 0x01 then ''StationChargingCompleted''
      else if status = 0x02 then ''Mowing''
      else if status = 0x03 then ''ReturningToStation''
      else if status = 0x04 then ''Paused''
      else if status = 0x80 then ''Error''
      else ''Unknown'')"

definition handleDeviceStatusNotification :: "connection \<Rightarrow> buffer \<Rightarrow> event list" where
  "handleDeviceStatusNotification c data =
     (if length data < 6 then []
      else
        let batteryLevel = (of_nat (unat (data ! 0)) / 2 :: rat);
            bladeTime = readUInt32BE data 1;
            status = data ! 5;
            stateName = stateMap status
        in [StoreTelemetryData (lawnmower_id c) batteryLevel stateName,
            LogCommunication (lawnmower_id c) Information ''Status_Update''
              (Text (''Battery: '' @ halfToString (unat (data ! 0)) @ ''%, State: '' @ stateName
                     @ '', Blade: '' @ toString10 (unat bladeTime) @ ''s''))])"

definition handlePositionUpdateNotification :: "connection \<Rightarrow> buffer \<Rightarrow> event list" where
  "handlePositionUpdateNotification c data =
     (if length data < 12 then []
      else
        let seconds = readUInt32BE data 0;
            latitude = readUInt32BE data 4;
            longitude = readUInt32BE data 8
        in [StoreGPSData (lawnmower_id c) latitude longitude seconds,
            LogCommunication (lawnmower_id c) Information ''Position_Update''
              (PositionText latitude longitude seconds)])"

definition handleNotification :: "connection \<Rightarrow> session_message \<Rightarrow> event list" where
  "handleNotification c sessionMsg =
     (let ntPayload = payload sessionMsg
      in if length ntPayload < 1 then []
         else
           let notificationType = ntPayload ! 0;
               notificationData = drop 1 ntPayload
           in if notificationType = DEVICE_STATUS then
                handleDeviceStatusNotification c notificationData
              else if notificationType = POSITION_UPDATE then
                handlePositionUpdateNotification c notificationData
              else [LogCommunication (lawnmower_id c) Warning ''Unknown_Notification''
                      (Text (''Unknown notification type: 0x'' @ toString16 (unat notificationType)))])"

text \<open>\<open>processFrame\<close>: the session layer and the switch on the message type.\<close>

definition processFrame :: "nat \<times> 64 word \<Rightarrow> connection \<Rightarrow> buffer \<Rightarrow> connection \<times> event list" where
  "processFrame rnd c pl =
     (case parseSessionMessage pl of
        Inl e \<Rightarrow>
          (c, [LogCommunication (lawnmower_id c) Error ''Message_Parse_Error''
                 (Text (''Failed to parse message: '' @ message e))])
      | Inr sessionMsg \<Rightarrow>
          if messageType sessionMsg = HELLO then handleHello rnd c sessionMsg
          else if messageType sessionMsg = CLIENT_AUTH then handleClientAuth c sessionMsg
          else if messageType sessionMsg = REGULAR then (c, handleRegularMessage c sessionMsg)
          else if messageType sessionMsg = NOTIFICATION then (c, handleNotification c sessionMsg)
          else (c, [LogCommunication (lawnmower_id c) Warning ''Unknown_Message_Type''
                      (Text (''Unknown message type: 0x''
                             @ toString16 (unat (messageType sessionMsg))))]))"

text \<open>
  \<open>handleData\<close>: the received bytes are appended to the buffer of the connection and
  the loop takes complete frames from it. The loop carries the buffer beside the rest
  of the connection; \<open>rnd k\<close> is the random secret and nonce at hand for the \<open>k\<close>-th
  frame.
\<close>

function handleData_loop :: "(nat \<Rightarrow> nat \<times> 64 word) \<Rightarrow> nat \<Rightarrow> buffer \<Rightarrow> connection \<Rightarrow> (buffer \<times> connection) \<times> event list" where
  "handleData_loop rnd k buf c =
     (if length buf > 0 then
        case parseFrame buf of
          Inr (pl, totalLength) \<Rightarrow>
            let buf' = drop totalLength buf;
                (c', evs) = processFrame (rnd k) c pl;
                (r, evs') = handleData_loop rnd (k + 1) buf' c'
            in (r, evs @ evs')
        | Inl e \<Rightarrow>
            if e = IncompleteFrame then ((buf, c), [])
            else
              (([], c),
               [LogCommunication (lawnmower_id c) Error ''Invalid_Frame''
                  (Text (''Broken frame: '' @ message e @ ''. Data: '' @ toHex buf))])
      else ((buf, c), []))"
  by pat_completeness auto
termination
proof (relation "measure (\<lambda>(rnd, k, buf, c). length buf)")
  show "wf (measure (\<lambda>(rnd, k, buf, c). length buf))" by simp
next
  fix rnd :: "nat \<Rightarrow> nat \<times> 64 word" and k :: nat and buf :: buffer and c :: connection
    and x2 x1 x2a xa x xb y
  assume pos: "0 < length buf" and pf: "parseFrame buf = Inr x2" and x2: "(x1, x2a) = x2"
    and xa: "xa = drop x2a buf"
  from pf x2 have "parseFrame buf = Inr (x1, x2a)" by simp
  then have "2 \<le> x2a"
    by (auto simp: parseFrame_def Let_def split: if_splits sum.splits prod.splits)
  with pos xa show "((rnd, k + 1, xa, y), (rnd, k, buf, c)) \<in> measure (\<lambda>(rnd, k, buf, c). length buf)"
    by simp
qed

definition handleData :: "(nat \<Rightarrow> nat \<times> 64 word) \<Rightarrow> connection \<Rightarrow> buffer \<Rightarrow> connection \<times> event list" where
  "handleData rnd c data =
     (let ((buf, c'), evs) = handleData_loop rnd 0 (buffer c @ data) c
      in (c'\<lparr>buffer := buf\<rparr>, evs))"


section \<open>Observing what a handler sent\<close>



text \<open>A source that hands out the same secret and nonce for every frame.\<close>

definition constRnd :: "nat \<times> 64 word \<Rightarrow> nat \<Rightarrow> nat \<times> 64 word" where
  "constRnd r k = r"

section \<open>Facts about the frame codec\<close>

declare encodeLength_loop.simps [simp del]
declare decodeLength_loop.simps [simp del]
declare handleData_loop.simps [simp del]
declare modularExponentiation_loop.simps [simp del]

lemma nat127: "(127::nat) = mask 7" by (simp add: mask_eq_exp_minus_1)
lemma int127: "(127::int) = mask 7" by (simp add: mask_eq_exp_minus_1)

lemma and127_nat: "(k::nat) AND 0x7F = k mod 128"
  by (simp add: nat127 flip: take_bit_eq_mask) (simp add: take_bit_eq_mod)

lemma and127_int: "(k::int) AND 0x7F = k mod 128"
  by (simp add: int127 flip: take_bit_eq_mask) (simp add: take_bit_eq_mod)

lemma or128_int: "0 \<le> k \<Longrightarrow> k < 128 \<Longrightarrow> (k::int) OR 0x80 = k + 128"
proof -
  assume a: "0 \<le> k" "k < 128"
  have "take_bit 7 k + 2 ^ 7 = take_bit 7 k OR 2 ^ 7"
    by (rule disjunctive_add) (simp only: bit_take_bit_iff bit_exp_iff, auto)
  then show ?thesis using a by (simp add: take_bit_int_eq_self)
qed

lemma and128_nat: "(k::nat) AND 0x80 = 0 \<longleftrightarrow> even (k div 128)"
  using and_exp_eq_0_iff_not_bit[of k 7] by (simp add: bit_iff_odd)

lemma byte_and128: "(w :: byte) AND 0x80 = 0 \<longleftrightarrow> even (unat w div 128)"
proof -
  have "(w AND 0x80 = 0) \<longleftrightarrow> (unat (w AND 0x80) = 0)"
    by (simp add: unsigned_eq_0_iff)
  also have "\<dots> \<longleftrightarrow> (unat w AND 0x80 = 0)"
    by (simp add: unsigned_and_eq)
  finally show ?thesis by (simp only: and128_nat)
qed

lemma byte_unat: "k < 256 \<Longrightarrow> unat (of_nat k :: byte) = k"
  by (simp add: unat_of_nat)

lemma byte_low: "k < 128 \<Longrightarrow> (of_nat k :: byte) AND 0x80 = 0"
  by (simp only: byte_and128) (simp add: byte_unat)

lemma byte_high: "k < 128 \<Longrightarrow> (of_nat (k + 128) :: byte) AND 0x80 \<noteq> 0"
proof -
  assume a: "k < 128"
  then have "(k + 128) div 128 = 1" by simp
  with a show ?thesis
    by (simp only: byte_and128) (simp add: byte_unat del: of_nat_add)
qed

lemma unat_low: "k < 128 \<Longrightarrow> unat (of_nat k :: byte) AND 0x7F = k"
  by (simp add: and127_nat byte_unat)

lemma unat_high: "k < 128 \<Longrightarrow> unat (of_nat (k + 128) :: byte) AND 0x7F = k"
  by (simp add: and127_nat byte_unat del: of_nat_add)

lemma toInt32_id: "0 \<le> k \<Longrightarrow> k < 2 ^ 31 \<Longrightarrow> toInt32 k = k"
  by (simp add: toInt32_def signed_take_bit_int_eq_self)


lemma encodeLength_loop_nonpos: "len \<le> 0 \<Longrightarrow> encodeLength_loop len bytes = bytes"
  by (subst encodeLength_loop.simps) simp

lemma encodeLength_loop_step:
  fixes n :: nat
  assumes "0 < n" "n < 2 ^ 31"
  shows "encodeLength_loop (int n) bytes =
     (if 128 \<le> n then encodeLength_loop (int (n div 128)) (bytes @ [int (n mod 128 + 128)])
      else bytes @ [int n])"
proof -
  have t: "toInt32 (int n) = int n" using assms by (simp add: toInt32_id)
  have d: "drop_bit 7 (int n) = int (n div 128)" by (simp add: drop_bit_eq_div zdiv_int)
  have m: "int n AND 0x7F = int (n mod 128)" by (simp add: and127_int zmod_int)
  have o: "int (n mod 128) OR 0x80 = int (n mod 128 + 128)" by (simp add: or128_int)
  show ?thesis
  proof (cases "128 \<le> n")
    case True
    then have "0 < n div 128" by (simp add: div_greater_zero_iff)
    with assms True show ?thesis
      by (subst encodeLength_loop.simps) (simp only: t d m o Let_def, simp)
  next
    case False
    then have z: "n div 128 = 0" "n mod 128 = n" by simp_all
    with assms False show ?thesis
      by (subst encodeLength_loop.simps) (simp only: t d m o Let_def, simp add: encodeLength_loop_nonpos)
  qed
qed

lemma encodeLength_loop_acc:
  fixes n :: nat
  shows "n < 2 ^ 31 \<Longrightarrow> encodeLength_loop (int n) bytes = bytes @ encodeLength_loop (int n) []"
proof (induction n arbitrary: bytes rule: less_induct)
  case (less n)
  show ?case
  proof (cases "n = 0")
    case True
    then show ?thesis by (simp add: encodeLength_loop_nonpos)
  next
    case False
    then have pos: "0 < n" by simp
    show ?thesis
    proof (cases "128 \<le> n")
      case True
      then have lt: "n div 128 < n" by simp
      have b: "n div 128 < 2 ^ 31" using less.prems lt by simp
      have "encodeLength_loop (int n) bytes = encodeLength_loop (int (n div 128)) (bytes @ [int (n mod 128 + 128)])"
        using True pos less.prems by (simp add: encodeLength_loop_step)
      also have "\<dots> = (bytes @ [int (n mod 128 + 128)]) @ encodeLength_loop (int (n div 128)) []"
        by (rule less.IH[OF lt b])
      also have "\<dots> = bytes @ encodeLength_loop (int (n div 128)) ([] @ [int (n mod 128 + 128)])"
        using less.IH[OF lt b, of "[] @ [int (n mod 128 + 128)]"] by simp
      also have "\<dots> = bytes @ encodeLength_loop (int n) []"
        using True pos less.prems by (simp add: encodeLength_loop_step)
      finally show ?thesis .
    next
      case False
      with pos less.prems show ?thesis by (simp add: encodeLength_loop_step)
    qed
  qed
qed

lemma recombine7: "push_bit shift (n mod 128) OR push_bit (shift + 7) (n div 128) = push_bit shift (n::nat)"
proof -
  have "take_bit 7 n OR push_bit 7 (drop_bit 7 n) = n"
  proof (rule bit_eqI)
    fix k
    show "bit (take_bit 7 n OR push_bit 7 (drop_bit 7 n)) k \<longleftrightarrow> bit n k"
      by (cases "k < 7") (auto simp: bit_simps)
  qed
  then have a: "n mod 128 OR push_bit 7 (n div 128) = n"
    by (simp add: take_bit_eq_mod drop_bit_eq_div)
  have "push_bit (shift + 7) (n div 128) = push_bit shift (push_bit 7 (n div 128))"
    by (simp add: push_bit_push_bit add.commute)
  then have "push_bit shift (n mod 128) OR push_bit (shift + 7) (n div 128)
      = push_bit shift (n mod 128 OR push_bit 7 (n div 128))"
    by (simp only: push_bit_or)
  with a show ?thesis by simp
qed

lemma decodeLength_loop_encode:
  fixes n :: nat
  assumes "0 < n" "n < 2 ^ (21 - shift)"
  shows "decodeLength_loop (pre @ map word_of_int (encodeLength_loop (int n) []) @ rest) acc (length pre) shift
       = Inr (acc OR push_bit shift n, length pre + length (encodeLength_loop (int n) []))"
  using assms
proof (induction n arbitrary: pre acc shift rule: less_induct)
  case (less n)
  have n31: "n < 2 ^ 31"
  proof -
    have "(2::nat) ^ (21 - shift) \<le> 2 ^ 31" by (rule power_increasing) simp_all
    with less.prems show ?thesis by simp
  qed
  show ?case
  proof (cases "128 \<le> n")
    case False
    then have n: "n < 128" by simp
    have enc: "encodeLength_loop (int n) [] = [int n]"
      using less.prems n n31 by (simp add: encodeLength_loop_step)
    show ?thesis
      by (subst decodeLength_loop.simps)
         (simp add: enc nth_append Let_def byte_low[OF n] unat_low[OF n] del: push_bit_and)
  next
    case True
    have enc: "encodeLength_loop (int n) [] = [int (n mod 128 + 128)] @ encodeLength_loop (int (n div 128)) []"
    proof -
      have "n div 128 < 2 ^ 31" using n31 by (simp add: less_imp_diff_less div_le_dividend le_less_trans)
      with True less.prems n31 show ?thesis
        using encodeLength_loop_acc[of "n div 128" "[int (n mod 128 + 128)]"]
        by (simp add: encodeLength_loop_step)
    qed
    have m: "n mod 128 < 128" by simp
    have sh: "shift < 14"
    proof (rule ccontr)
      assume "\<not> shift < 14"
      then have "21 - shift \<le> 7" by simp
      then have "(2::nat) ^ (21 - shift) \<le> 2 ^ 7" by (rule power_increasing) simp
      with less.prems True show False by simp
    qed
    have lt: "n div 128 < n" using True by simp
    have pos: "0 < n div 128" using True by (simp add: div_greater_zero_iff)
    have bnd: "n div 128 < 2 ^ (21 - (shift + 7))"
    proof -
      have e: "21 - shift = (21 - (shift + 7)) + 7" using sh by simp
      have "(2::nat) ^ (21 - shift) = 2 ^ (21 - (shift + 7)) * 2 ^ 7"
        by (subst e) (rule power_add)
      with less.prems have "n < 2 ^ (21 - (shift + 7)) * 128" by simp
      then show ?thesis by (rule less_mult_imp_div_less)
    qed
    let ?b = "word_of_int (int (n mod 128 + 128)) :: byte"
    have b: "?b = of_nat (n mod 128 + 128)" by simp
    have buf: "pre @ map word_of_int (encodeLength_loop (int n) []) @ rest
        = (pre @ [?b]) @ map word_of_int (encodeLength_loop (int (n div 128)) []) @ rest"
      by (simp only: enc) simp
    have nth: "(pre @ map word_of_int (encodeLength_loop (int n) []) @ rest) ! length pre = ?b"
      by (simp only: enc) (simp add: nth_append)
    have len: "length pre < length (pre @ map word_of_int (encodeLength_loop (int n) []) @ rest)"
      by (simp only: enc) simp
    have step: "decodeLength_loop (pre @ map word_of_int (encodeLength_loop (int n) []) @ rest) acc (length pre) shift
        = decodeLength_loop ((pre @ [?b]) @ map word_of_int (encodeLength_loop (int (n div 128)) []) @ rest)
            (acc OR push_bit shift (n mod 128)) (length (pre @ [?b])) (shift + 7)"
      apply (subst decodeLength_loop.simps)
      apply (simp only: len nth if_True Let_def b byte_high[OF m] unat_high[OF m] if_False)
      using sh apply (simp only: buf b)
      apply simp
      done
    also have "\<dots> = Inr ((acc OR push_bit shift (n mod 128)) OR push_bit (shift + 7) (n div 128),
        length (pre @ [?b]) + length (encodeLength_loop (int (n div 128)) []))"
      by (rule less.IH[OF lt pos bnd])
    also have "\<dots> = Inr (acc OR push_bit shift n, length pre + length (encodeLength_loop (int n) []))"
      by (simp only: enc or.assoc recombine7) simp
    finally show ?thesis .
  qed
qed


lemma decodeLength_encodeLength:
  fixes n :: nat
  assumes "n < 2 ^ 21"
  shows "decodeLength (SOF_MARKER # encodeLength (int n) @ rest) 1
       = Inr (n, 1 + length (encodeLength (int n)))"
proof (cases "n = 0")
  case True
  then show ?thesis
    unfolding decodeLength_def encodeLength_def
    by (subst decodeLength_loop.simps) simp
next
  case False
  then have pos: "0 < n" by simp
  have "decodeLength_loop ([SOF_MARKER] @ map word_of_int (encodeLength_loop (int n) []) @ rest) 0 (length [SOF_MARKER]) 0
      = Inr (0 OR push_bit 0 n, length [SOF_MARKER] + length (encodeLength_loop (int n) []))"
    by (rule decodeLength_loop_encode[OF pos]) (use assms in simp)
  with False show ?thesis
    by (simp add: decodeLength_def encodeLength_def)
qed

lemma encodeLength_nonempty:
  fixes n :: nat
  assumes "n < 2 ^ 31"
  shows "encodeLength (int n) \<noteq> []"
proof (cases "n = 0")
  case True
  then show ?thesis by (simp add: encodeLength_def)
next
  case False
  then have pos: "0 < n" by simp
  have "encodeLength_loop (int n) [] \<noteq> []"
  proof (cases "128 \<le> n")
    case True
    have "n div 128 < 2 ^ 31" using assms by (simp add: less_imp_diff_less div_le_dividend le_less_trans)
    then have "encodeLength_loop (int (n div 128)) [int (n mod 128 + 128)]
        = [int (n mod 128 + 128)] @ encodeLength_loop (int (n div 128)) []"
      by (rule encodeLength_loop_acc)
    with True pos assms show ?thesis by (simp add: encodeLength_loop_step)
  next
    case False
    with pos assms show ?thesis by (simp add: encodeLength_loop_step)
  qed
  with False show ?thesis by (simp add: encodeLength_def)
qed

lemma length_calculateChecksum: "length (calculateChecksum buf) = 2"
  by (simp add: calculateChecksum_def Let_def)

lemma parseFrame_createFrame_tail:
  assumes "length p \<le> 2 ^ 21 - 1"
  shows "parseFrame (createFrame p @ tail) = Inr (p, length (createFrame p))"
proof -
  define e where "e = encodeLength (int (length p))"
  define cs where "cs = calculateChecksum (SOF_MARKER # e @ p)"
  have n21: "length p < 2 ^ 21" using assms by simp
  then have "length p < 2 ^ 31" by simp
  then have e_ne: "e \<noteq> []" unfolding e_def by (rule encodeLength_nonempty)
  then have e_len: "1 \<le> length e" by (cases e) simp_all
  have cs_len: "length cs = 2" by (simp add: cs_def length_calculateChecksum)
  have frame: "createFrame p = SOF_MARKER # e @ p @ cs"
    by (simp add: createFrame_def e_def cs_def Let_def)
  define buf where "buf = createFrame p @ tail"
  have buf: "buf = SOF_MARKER # e @ p @ cs @ tail" by (simp add: buf_def frame)
  have dec: "decodeLength buf 1 = Inr (length p, 1 + length e)"
    unfolding e_def buf using n21 by (rule decodeLength_encodeLength)
  have l4: "\<not> length buf < 4" using e_ne cs_len by (simp add: buf)
  have sof: "buf ! 0 = SOF_MARKER" by (simp add: buf)
  have len: "\<not> length buf < 1 + length e + length p + 2" using cs_len by (simp add: buf)
  have s1: "slice buf (1 + length e) (1 + length e + length p) = p"
    by (simp add: slice_def buf)
  have s2: "slice buf (1 + length e + length p) (1 + length e + length p + 2) = cs"
    using cs_len by (simp add: slice_def buf)
  have s3: "slice buf 0 (1 + length e + length p) = SOF_MARKER # e @ p"
    by (simp add: slice_def buf)
  have tot: "length (createFrame p) = 1 + length e + length p + 2"
    using cs_len by (simp add: frame)
  have "parseFrame buf = Inr (p, 1 + length e + length p + 2)"
    unfolding parseFrame_def
    by (simp only: l4 sof dec len s1 s2 s3 Let_def if_False sum.case prod.case cs_def[symmetric])
       simp
  then show ?thesis by (simp only: tot buf_def)
qed

lemma decodeLength_loop_offset_mono:
  "decodeLength_loop buf acc off sh = Inr (len, off') \<Longrightarrow> off \<le> off'"
proof (induction buf acc off sh rule: decodeLength_loop.induct)
  case (1 buf acc off sh)
  show ?case
  proof (cases "off < length buf \<and> buf ! off AND 0x80 \<noteq> 0 \<and> \<not> sh + 7 \<ge> 21")
    case True
    with "1.prems" have rec: "decodeLength_loop buf (acc OR push_bit sh (unat (buf ! off) AND 0x7F)) (off + 1) (sh + 7) = Inr (len, off')"
      by (subst (asm) decodeLength_loop.simps) (simp add: Let_def)
    from True have "off + 1 \<le> off'"
      using "1.IH"[OF _ refl refl refl refl _ _ rec] by simp
    then show ?thesis by simp
  next
    case False
    with "1.prems" show ?thesis
      by (subst (asm) decodeLength_loop.simps) (auto simp: Let_def split: if_splits)
  qed
qed

lemma decodeLength_loop_take:
  "decodeLength_loop buf acc off sh = Inr (len, off') \<Longrightarrow> off' \<le> n \<Longrightarrow> n \<le> length buf
   \<Longrightarrow> decodeLength_loop (take n buf) acc off sh = Inr (len, off')"
proof (induction buf acc off sh rule: decodeLength_loop.induct)
  case (1 buf acc off sh)
  show ?case
  proof (cases "off < length buf")
    case False
    with "1.prems" have "off' = off"
      by (subst (asm) decodeLength_loop.simps) simp
    with False "1.prems" have "n = length buf" by simp
    with "1.prems" show ?thesis by simp
  next
    case True
    note lt = True
    let ?byte = "buf ! off"
    let ?len' = "acc OR push_bit sh (unat ?byte AND 0x7F)"
    show ?thesis
    proof (cases "?byte AND 0x80 = 0")
      case True
      with lt "1.prems" have r: "len = ?len'" "off' = off + 1"
        by (subst (asm) decodeLength_loop.simps, simp add: Let_def)+
      with "1.prems" have "off < n" by simp
      with True r "1.prems" show ?thesis
        by (subst decodeLength_loop.simps) (simp add: Let_def)
    next
      case False
      note hi = False
      show ?thesis
      proof (cases "sh + 7 \<ge> 21")
        case True
        with lt hi "1.prems" show ?thesis
          by (subst (asm) decodeLength_loop.simps) (simp add: Let_def)
      next
        case False
        with lt hi "1.prems" have rec: "decodeLength_loop buf ?len' (off + 1) (sh + 7) = Inr (len, off')"
          by (subst (asm) decodeLength_loop.simps) (simp add: Let_def)
        have ih: "decodeLength_loop (take n buf) ?len' (off + 1) (sh + 7) = Inr (len, off')"
          using "1.IH"[OF lt refl refl refl refl hi False rec "1.prems"(2) "1.prems"(3)] .
        have "off + 1 \<le> off'" using rec by (rule decodeLength_loop_offset_mono)
        with "1.prems" have "off < n" by simp
        with hi False ih "1.prems" show ?thesis
          by (subst decodeLength_loop.simps) (simp add: Let_def)
      qed
    qed
  qed
qed


lemma decodeLength_offset_le4:
  "decodeLength buf 1 = Inr (len, off) \<Longrightarrow> off \<le> 4"
  by (auto simp: decodeLength_def decodeLength_loop.simps[of _ _ _ 0]
        decodeLength_loop.simps[of _ _ _ 7] decodeLength_loop.simps[of _ _ _ 14] Let_def
      split: if_splits)

lemma parseFrame_prefix:
  assumes wf: "parseFrame f = Inr (p, length f)" and n: "n < length f"
  shows "parseFrame (take n f) = (if n < 4 then Inl FrameTooShort else Inl IncompleteFrame)"
proof (cases "n < 4")
  case True
  then show ?thesis using n by (simp add: parseFrame_def)
next
  case False
  from wf obtain len off where dec: "decodeLength f 1 = Inr (len, off)"
    and tot: "length f = off + len + 2" and sof: "f ! 0 = SOF_MARKER"
    by (auto simp: parseFrame_def Let_def split: if_splits sum.splits prod.splits)
  have off4: "off \<le> 4" using dec by (rule decodeLength_offset_le4)
  have "decodeLength_loop (take n f) 0 1 0 = Inr (len, off)"
    using dec off4 False n unfolding decodeLength_def
    by (intro decodeLength_loop_take) simp_all
  then have dec': "decodeLength (take n f) 1 = Inr (len, off)" by (simp add: decodeLength_def)
  have l: "length (take n f) = n" using n by simp
  have inc: "length (take n f) < off + len + 2" using n tot by simp
  from False n sof have sof': "take n f ! 0 = SOF_MARKER" by simp
  have l4: "\<not> length (take n f) < 4" using False l by simp
  have "parseFrame (take n f) = Inl IncompleteFrame"
    unfolding parseFrame_def
    by (simp only: l4 sof' dec' inc if_False if_True not_not sum.case prod.case) simp
  with False show ?thesis by simp
qed


lemma encodeLength_long:
  fixes n :: nat
  assumes lo: "2 ^ 21 \<le> n" and hi: "n < 2 ^ 31"
  shows "\<exists>k0 k1 k2 tl. k0 < 128 \<and> k1 < 128 \<and> k2 < 128 \<and> tl \<noteq> [] \<and>
           encodeLength (int n) = of_nat (k0 + 128) # of_nat (k1 + 128) # of_nat (k2 + 128) # tl"
proof -
  define n1 where "n1 = n div 128"
  define n2 where "n2 = n1 div 128"
  have b1: "2 ^ 14 \<le> n1" "n1 < 2 ^ 31" using lo hi by (simp_all add: n1_def)
  have b2: "2 ^ 7 \<le> n2" "n2 < 2 ^ 31" using b1 by (simp_all add: n2_def)
  have b3: "0 < n2 div 128" "n2 div 128 < 2 ^ 31" using b2 by (simp_all add: div_greater_zero_iff)
  have e0: "encodeLength_loop (int n) [] = [int (n mod 128 + 128)] @ encodeLength_loop (int n1) []"
    using lo hi encodeLength_loop_acc[OF b1(2), of "[int (n mod 128 + 128)]"]
    by (simp add: encodeLength_loop_step n1_def)
  have e1: "encodeLength_loop (int n1) [] = [int (n1 mod 128 + 128)] @ encodeLength_loop (int n2) []"
    using b1 encodeLength_loop_acc[OF b2(2), of "[int (n1 mod 128 + 128)]"]
    by (simp add: encodeLength_loop_step n2_def)
  have e2: "encodeLength_loop (int n2) [] = [int (n2 mod 128 + 128)] @ encodeLength_loop (int (n2 div 128)) []"
    using b2 encodeLength_loop_acc[OF b3(2), of "[int (n2 mod 128 + 128)]"]
    by (simp add: encodeLength_loop_step)
  have ne: "encodeLength (int (n2 div 128)) \<noteq> []" using b3(2) by (rule encodeLength_nonempty)
  then have ne': "map word_of_int (encodeLength_loop (int (n2 div 128)) []) \<noteq> ([] :: buffer)"
    using b3(1) by (simp add: encodeLength_def)
  have n0: "n \<noteq> 0" using lo by auto
  have "encodeLength (int n) = of_nat (n mod 128 + 128) # of_nat (n1 mod 128 + 128)
           # of_nat (n2 mod 128 + 128) # map word_of_int (encodeLength_loop (int (n2 div 128)) [])"
    using n0 by (simp add: encodeLength_def e0 e1 e2 del: of_nat_add)
  with ne' show ?thesis
    by (intro exI[of _ "n mod 128"] exI[of _ "n1 mod 128"] exI[of _ "n2 mod 128"]
          exI[of _ "map word_of_int (encodeLength_loop (int (n2 div 128)) [])"]) simp
qed

lemma decodeLength_three_continuations:
  assumes "k0 < 128" "k1 < 128" "k2 < 128"
  shows "decodeLength (s # of_nat (k0 + 128) # of_nat (k1 + 128) # of_nat (k2 + 128) # rest) 1
       = Inl LengthEncodingTooLong"
  using byte_high[OF assms(1)] byte_high[OF assms(2)] byte_high[OF assms(3)]
  by (simp add: decodeLength_def decodeLength_loop.simps[of _ _ _ 0]
        decodeLength_loop.simps[of _ _ _ 7] decodeLength_loop.simps[of _ _ _ 14] Let_def
      del: of_nat_add)

lemma parseFrame_createFrame_long:
  assumes lo: "2 ^ 21 \<le> length p" and hi: "length p < 2 ^ 31"
  shows "4 \<le> length (encodeLength (int (length p)))
       \<and> parseFrame (createFrame p) = Inl LengthEncodingTooLong"
proof -
  from encodeLength_long[OF lo hi] obtain k0 k1 k2 tl where
    k: "k0 < 128" "k1 < 128" "k2 < 128" "tl \<noteq> []"
    and e: "encodeLength (int (length p)) = of_nat (k0 + 128) # of_nat (k1 + 128) # of_nat (k2 + 128) # tl"
    by blast
  have l: "4 \<le> length (encodeLength (int (length p)))"
    using k(4) by (cases tl) (simp_all add: e)
  define rest where "rest = tl @ p @ calculateChecksum ([SOF_MARKER] @ encodeLength (int (length p)) @ p)"
  have frame: "createFrame p = SOF_MARKER # of_nat (k0 + 128) # of_nat (k1 + 128) # of_nat (k2 + 128) # rest"
    unfolding createFrame_def Let_def rest_def by (subst (1) e) simp
  have dec: "decodeLength (createFrame p) 1 = Inl LengthEncodingTooLong"
    unfolding frame using k(1-3) by (rule decodeLength_three_continuations)
  have l4: "\<not> length (createFrame p) < 4" by (simp add: frame)
  have sof: "createFrame p ! 0 = SOF_MARKER" by (simp add: frame)
  have "parseFrame (createFrame p) = Inl LengthEncodingTooLong"
    unfolding parseFrame_def
    by (simp only: l4 sof dec if_False not_not sum.case) simp
  with l show ?thesis by simp
qed

lemma foldl_uint_replicate_zero:
  "foldl (\<lambda>s b. s + uint b) a (replicate n (0::byte)) = a"
  by (induction n arbitrary: a) simp_all

lemma foldl_uint_append:
  "foldl (\<lambda>s b. s + uint b) a (xs @ ys) = foldl (\<lambda>s b. s + uint b) (foldl (\<lambda>s b. s + uint b) a xs) ys"
  by simp

lemma encodeLength_2097152: "encodeLength 2097152 = [0x80, 0x80, 0x80, 0x01]"
  by code_simp

lemma handleData_loop_incomplete:
  assumes "parseFrame buf = Inl IncompleteFrame"
  shows "handleData_loop rnd k buf c = ((buf, c), [])"
  by (subst handleData_loop.simps) (simp add: assms)





section \<open>Facts about the session, presentation and application layers\<close>




lemma parseCommand_create:
  "parseCommand (createCommand cmd pl) = Inr \<lparr>command = cmd, cmd_payload = pl\<rparr>"
  by (simp add: parseCommand_def createCommand_def)




section \<open>Facts about the Diffie-Hellman functions\<close>

lemma modexp_loop_mod:
  "modularExponentiation_loop r b e m mod m = (r * b ^ e) mod m"
proof (induction r b e m rule: modularExponentiation_loop.induct)
  case (1 r b e m)
  show ?case
  proof (cases "e > 0")
    case False
    then show ?thesis by (subst modularExponentiation_loop.simps) simp
  next
    case True
    let ?r' = "if e mod 2 = 1 then (r * b) mod m else r"
    let ?e' = "drop_bit 1 e"
    let ?b' = "(b * b) mod m"
    have step: "modularExponentiation_loop r b e m = modularExponentiation_loop ?r' ?b' ?e' m"
      using True by (subst modularExponentiation_loop.simps) (simp add: Let_def)
    have ih: "modularExponentiation_loop ?r' ?b' ?e' m mod m = (?r' * ?b' ^ ?e') mod m"
      using "1.IH"[OF True refl refl refl] .
    have e: "e = 2 * ?e' + e mod 2" by (simp add: drop_bit_eq_div)
    have b2: "?b' ^ ?e' mod m = b ^ (2 * ?e') mod m"
      by (simp add: power_mod power_mult power2_eq_square)
    have "(?r' * ?b' ^ ?e') mod m = (?r' mod m * (?b' ^ ?e' mod m)) mod m"
      by (simp add: mod_mult_eq)
    also have "\<dots> = (?r' mod m * (b ^ (2 * ?e') mod m)) mod m" by (simp only: b2)
    also have "\<dots> = (?r' * b ^ (2 * ?e')) mod m" by (simp add: mod_mult_eq)
    also have "\<dots> = (r * b ^ e) mod m"
    proof (cases "e mod 2 = 1")
      case True
      then have "e = Suc (2 * ?e')" using e by simp
      then have "b ^ e = b * b ^ (2 * ?e')" by (metis power_Suc)
      then have "r * b ^ e = (r * b) * b ^ (2 * ?e')" by (simp only: mult.assoc)
      then have "(r * b ^ e) mod m = ((r * b) mod m * b ^ (2 * ?e')) mod m"
        by (simp only: mod_mult_left_eq)
      with True show ?thesis by simp
    next
      case False
      then have "e mod 2 = 0" by simp
      then have "e = 2 * ?e'" using e by simp
      with False show ?thesis by metis
    qed
    finally show ?thesis using step ih by simp
  qed
qed

lemma modexp_loop_less:
  "r < m \<Longrightarrow> modularExponentiation_loop r b e m < m"
proof (induction r b e m rule: modularExponentiation_loop.induct)
  case (1 r b e m)
  show ?case
  proof (cases "e > 0")
    case False
    with "1.prems" show ?thesis by (subst modularExponentiation_loop.simps) simp
  next
    case True
    let ?r' = "if e mod 2 = 1 then (r * b) mod m else r"
    have "?r' < m" using "1.prems" by simp
    then have "modularExponentiation_loop ?r' ((b * b) mod m) (drop_bit 1 e) m < m"
      using "1.IH"[OF True refl refl refl] by simp
    then show ?thesis
      using True by (subst modularExponentiation_loop.simps) (simp add: Let_def)
  qed
qed

lemma modularExponentiation_eq:
  "1 < m \<Longrightarrow> modularExponentiation b e m = Inr (b ^ e mod m)"
proof -
  assume m: "1 < m"
  have "modularExponentiation_loop 1 (b mod m) e m < m" using m by (intro modexp_loop_less) 
  then have "modularExponentiation_loop 1 (b mod m) e m = modularExponentiation_loop 1 (b mod m) e m mod m"
    by simp
  also have "\<dots> = (1 * (b mod m) ^ e) mod m" by (rule modexp_loop_mod)
  also have "\<dots> = b ^ e mod m" by (simp add: power_mod)
  finally show ?thesis using m by (simp add: modularExponentiation_def)
qed

lemma calculatePublicKey_eq: "calculatePublicKey s = Inr (5 ^ s mod 0xFFFFFFFB)"
  by (simp add: calculatePublicKey_def DH_GENERATOR_def DH_MODULUS_def modularExponentiation_eq)

lemma calculateSharedSecret_eq: "calculateSharedSecret k s = Inr (k ^ s mod 0xFFFFFFFB)"
  by (simp add: calculateSharedSecret_def DH_MODULUS_def modularExponentiation_eq)

section \<open>Facts about the handlers\<close>















lemma handleRegularMessage_rejected:
  "\<not> authenticated c \<Longrightarrow> \<not> isBypassHMAC (hmac m) \<Longrightarrow>
   handleRegularMessage c m =
     [LogCommunication (lawnmower_id c) Warning ''Unauthenticated_Message''
        (Text ''Received message from unauthenticated connection'')]"
  by (simp add: handleRegularMessage_def)

lemma handleRegularMessage_accepted:
  "authenticated c \<or> isBypassHMAC (hmac m) \<Longrightarrow>
   parsePresentationMessage (payload m) = Inr pm \<Longrightarrow> parseCommand (pres_payload pm) = Inr cmd \<Longrightarrow>
   handleRegularMessage c m = handleCommand c (iin pm) cmd"
  by (auto simp: handleRegularMessage_def)

lemma handleCommand_not_rejection:
  "handleCommand c i cmd \<noteq>
     [LogCommunication (lawnmower_id c) Warning ''Unauthenticated_Message''
        (Text ''Received message from unauthenticated connection'')]"
  by (auto simp: handleCommand_def handleHeartbeat_def handleControlDevice_def handleAckError_def
        handleResetBladeTime_def sendErrorResponse_def Let_def split: prod.splits option.splits)

lemma processFrame_regular:
  "length h = 4 \<Longrightarrow> processFrame rnd c (h @ REGULAR # body)
     = (c, handleRegularMessage c \<lparr>hmac = h, messageType = REGULAR, payload = body\<rparr>)"
  by (simp add: processFrame_def parseSessionMessage_def slice_def nth_append
        REGULAR_def HELLO_def CLIENT_AUTH_def)



lemma handleRegularMessage_parse_error:
  assumes "authenticated c \<or> isBypassHMAC (hmac m)" and "length (payload m) < 3"
  shows "handleRegularMessage c m =
     [LogCommunication (lawnmower_id c) Error ''Command_Parse_Error''
        (Text (''Failed to parse command: ''
               @ (if length (payload m) < 2 then ''Presentation message too short''
                  else ''Command too short'')))]"
proof (cases "length (payload m) < 2")
  case True
  with assms(1) show ?thesis
    by (auto simp: handleRegularMessage_def parsePresentationMessage_def)
next
  case False
  with assms(2) have "length (payload m) = 2" by simp
  with assms(1) show ?thesis
    by (auto simp: handleRegularMessage_def parsePresentationMessage_def parseCommand_def)
qed

lemma regular_body_parses_iff:
  "3 \<le> length pl \<longleftrightarrow>
     (\<exists>pm cmd. parsePresentationMessage pl = Inr pm \<and> parseCommand (pres_payload pm) = Inr cmd)"
  by (auto simp: parsePresentationMessage_def parseCommand_def split: if_splits)

lemma handleData_loop_waits_on_long_prefix:
  assumes "parseFrame f = Inr (p, length f)" and "4 \<le> n" and "n < length f"
  shows "parseFrame (take n f) = Inl IncompleteFrame
       \<and> handleData_loop rnd k (take n f) c = ((take n f, c), [])"
proof -
  have "parseFrame (take n f) = Inl IncompleteFrame"
    using parseFrame_prefix[OF assms(1) assms(3)] assms(2) by simp
  then show ?thesis by (simp add: handleData_loop_incomplete)
qed

lemma handleData_loop_drops_short_buffer:
  assumes "0 < length buf" and "length buf < 4"
  shows "parseFrame buf = Inl FrameTooShort
       \<and> handleData_loop rnd k buf c
           = (([], c), [LogCommunication (lawnmower_id c) Error ''Invalid_Frame''
                          (Text (''Broken frame: Frame too short. Data: '' @ toHex buf))])"
proof -
  have pf: "parseFrame buf = Inl FrameTooShort" using assms(2) by (simp add: parseFrame_def)
  show ?thesis
    using assms(1) by (subst handleData_loop.simps) (simp add: pf)
qed

section \<open>The claims about the frame codec\<close>

text \<open>
  Claim C1. For every payload \<open>p\<close> of at most \<open>2^21 - 1\<close> bytes, \<open>parseFrame\<close>
  applied to \<open>createFrame p\<close>, with any bytes appended after the frame, succeeds and
  returns exactly \<open>p\<close>, with \<open>totalLength\<close> the length of \<open>createFrame p\<close>.
\<close>

theorem C1_frame_roundtrip:
  assumes "length p \<le> 2 ^ 21 - 1"
  shows "parseFrame (createFrame p) = Inr (p, length (createFrame p))
       \<and> parseFrame (createFrame p @ extra) = Inr (p, length (createFrame p))"
  using parseFrame_createFrame_tail[OF assms, of "[]"] parseFrame_createFrame_tail[OF assms, of extra]
  by simp

theorem C1_frame_roundtrip_witness:
  "length [0xDE, 0xAD, 0xBE :: byte] \<le> 2 ^ 21 - 1
   \<and> parseFrame (createFrame [0xDE, 0xAD, 0xBE]) = Inr ([0xDE, 0xAD, 0xBE], 7)
   \<and> parseFrame (createFrame [0xDE, 0xAD, 0xBE] @ [0xAA, 0x01]) = Inr ([0xDE, 0xAD, 0xBE], 7)"
proof -
  have h: "length [0xDE, 0xAD, 0xBE :: byte] \<le> 2 ^ 21 - 1" by simp
  have l: "length (createFrame [0xDE, 0xAD, 0xBE]) = 7"
    by code_simp
  show ?thesis
    using h C1_frame_roundtrip[OF h, of "[0xAA, 0x01]"] by (simp add: l)
qed

text \<open>
  Claim C7 (as amended). \<open>createFrame\<close> has no length check and rejects no payload: it
  returns SOF, the length varint, the payload and the two checksum bytes for every
  payload. For a payload of \<open>2^21\<close> up to \<open>2^31 - 1\<close> bytes the varint has at least four bytes,
  and it is \<open>parseFrame\<close> that rejects the frame, with "Length encoding too long".
\<close>

theorem C7_createFrame_long_payload:
  assumes "2 ^ 21 \<le> length p" and "length p < 2 ^ 31"
  shows "createFrame p = [SOF_MARKER] @ encodeLength (int (length p)) @ p
             @ calculateChecksum ([SOF_MARKER] @ encodeLength (int (length p)) @ p)
       \<and> 4 \<le> length (encodeLength (int (length p)))
       \<and> parseFrame (createFrame p) = Inl LengthEncodingTooLong"
  using parseFrame_createFrame_long[OF assms] by (simp add: createFrame_def Let_def)

theorem C7_createFrame_long_payload_witness:
  "2 ^ 21 \<le> length (replicate 2097152 (0::byte))
   \<and> length (replicate 2097152 (0::byte)) < 2 ^ 31
   \<and> parseFrame (createFrame (replicate 2097152 0)) = Inl LengthEncodingTooLong"
proof -
  have h1: "2 ^ 21 \<le> length (replicate 2097152 (0::byte))"
    by (simp only: length_replicate) simp
  have h2: "length (replicate 2097152 (0::byte)) < 2 ^ 31"
    by (simp only: length_replicate) simp
  from C7_createFrame_long_payload[OF h1 h2] h1 h2 show ?thesis by blast
qed

text \<open>
  Counterexample to C7 as stated: for a payload of \<open>2^21\<close> zero bytes, one more than
  \<open>2^21 - 1\<close>, \<open>createFrame\<close> returns a frame.
\<close>

theorem C7_counterexample:
  "\<not> length (replicate 2097152 (0::byte)) \<le> 2 ^ 21 - 1
   \<and> createFrame (replicate 2097152 0)
       = [0xAA, 0x80, 0x80, 0x80, 0x01] @ replicate 2097152 0 @ [0xFD, 0xD5]"
proof -
  have l: "int (length (replicate 2097152 (0::byte))) = 2097152"
    by (simp only: length_replicate of_nat_numeral)
  have c: "calculateChecksum ([SOF_MARKER] @ [0x80, 0x80, 0x80, 0x01] @ replicate 2097152 0) = [0xFD, 0xD5]"
    unfolding calculateChecksum_def foldl_append foldl_uint_replicate_zero
    by (simp add: SOF_MARKER_def toInt32_def)
  have "createFrame (replicate 2097152 0)
       = [0xAA, 0x80, 0x80, 0x80, 0x01] @ replicate 2097152 0 @ [0xFD, 0xD5]"
    unfolding createFrame_def Let_def l encodeLength_2097152 c
    by (simp only: SOF_MARKER_def append_Cons append_Nil)
  moreover have "\<not> length (replicate 2097152 (0::byte)) \<le> 2 ^ 21 - 1"
    by (simp only: length_replicate) simp
  ultimately show ?thesis by (rule_tac conjI)
qed

text \<open>
  Claim C8. The claim asks that every strict prefix of a well-formed frame (valid SOF,
  valid varint prefix, fewer bytes than the whole frame) is reported as "Incomplete
  frame", on which \<open>handleData\<close> waits for more bytes. The code does so for prefixes
  of at least four bytes only. \<open>parseFrame\<close> reports a shorter prefix as "Frame too
  short", and \<open>handleData\<close> then logs Invalid\_Frame and drops the buffer. The theorem
  runs the code on the well-formed frame of a heartbeat with bypass HMAC: sent whole, or
  split after four bytes, it is answered; split after three bytes, the first part is
  dropped, the rest is refused for its first byte, and the request is never answered.
\<close>

theorem C8_short_prefix_destroys_frame:
  "parseFrame [0xAA, 0x0C, 0xFA, 0xDE, 0xDB, 0xED, 0x00, 0x00, 0x01, 0x00, 0xDE, 0xAD, 0xBE, 0xEF, 0xF8, 0x71]
     = Inr ([0xFA, 0xDE, 0xDB, 0xED, 0x00, 0x00, 0x01, 0x00, 0xDE, 0xAD, 0xBE, 0xEF], 16)
   \<and> handleData (constRnd (1, 0)) (newConnection 7)
        [0xAA, 0x0C, 0xFA, 0xDE, 0xDB, 0xED, 0x00, 0x00, 0x01, 0x00, 0xDE, 0xAD, 0xBE, 0xEF, 0xF8, 0x71]
     = (newConnection 7,
        [SocketWrite [0xAA, 0x0C, 0xFA, 0xDE, 0xDB, 0xED, 0x00, 0x00, 0x01, 0x80, 0xDE, 0xAD, 0xBE, 0xEF, 0xF7, 0xF1],
         LogCommunication 7 Information ''Heartbeat_Response''
           (Text ''Heartbeat echoed, payload length: 4'')])
   \<and> parseFrame [0xAA, 0x0C, 0xFA, 0xDE] = Inl IncompleteFrame
   \<and> handleData (constRnd (1, 0)) (newConnection 7) [0xAA, 0x0C, 0xFA, 0xDE]
     = (newConnection 7\<lparr>buffer := [0xAA, 0x0C, 0xFA, 0xDE]\<rparr>, [])
   \<and> handleData (constRnd (1, 0)) (newConnection 7\<lparr>buffer := [0xAA, 0x0C, 0xFA, 0xDE]\<rparr>)
        [0xDB, 0xED, 0x00, 0x00, 0x01, 0x00, 0xDE, 0xAD, 0xBE, 0xEF, 0xF8, 0x71]
     = (newConnection 7,
        [SocketWrite [0xAA, 0x0C, 0xFA, 0xDE, 0xDB, 0xED, 0x00, 0x00, 0x01, 0x80, 0xDE, 0xAD, 0xBE, 0xEF, 0xF7, 0xF1],
         LogCommunication 7 Information ''Heartbeat_Response''
           (Text ''Heartbeat echoed, payload length: 4'')])
   \<and> parseFrame [0xAA, 0x0C, 0xFA] = Inl FrameTooShort
   \<and> handleData (constRnd (1, 0)) (newConnection 7) [0xAA, 0x0C, 0xFA]
     = (newConnection 7,
        [LogCommunication 7 Error ''Invalid_Frame''
           (Text ''Broken frame: Frame too short. Data: aa0cfa'')])
   \<and> handleData (constRnd (1, 0)) (newConnection 7)
        [0xDE, 0xDB, 0xED, 0x00, 0x00, 0x01, 0x00, 0xDE, 0xAD, 0xBE, 0xEF, 0xF8, 0x71]
     = (newConnection 7,
        [LogCommunication 7 Error ''Invalid_Frame''
           (Text ''Broken frame: Invalid SOF marker. Data: dedbed00000100deadbeeff871'')])"
  by code_simp

section \<open>The claim about the key exchange\<close>

text \<open>
  Claim C4. With generator 5 and modulus \<open>0xFFFFFFFB\<close>, \<open>calculatePublicKey\<close> and
  \<open>calculateSharedSecret\<close> return for all secrets, and the shared secret computed from
  the public key of \<open>s_a\<close> and the secret \<open>s_b\<close> equals the one computed from the public
  key of \<open>s_b\<close> and the secret \<open>s_a\<close>; in particular for all secrets in \<open>[1, 0xFFFF]\<close>.
\<close>

theorem C4_shared_secret_commutes:
  "\<exists>A B k. calculatePublicKey s_a = Inr A \<and> A = 5 ^ s_a mod 0xFFFFFFFB
     \<and> calculatePublicKey s_b = Inr B \<and> B = 5 ^ s_b mod 0xFFFFFFFB
     \<and> calculateSharedSecret A s_b = Inr k \<and> calculateSharedSecret B s_a = Inr k"
proof -
  have "(5 ^ s_a mod 0xFFFFFFFB) ^ s_b mod 0xFFFFFFFB
      = (5 ^ s_b mod 0xFFFFFFFB) ^ s_a mod (0xFFFFFFFB :: nat)"
    by (simp add: power_mod flip: power_mult) (simp add: mult.commute)
  then show ?thesis
    by (simp add: calculatePublicKey_eq calculateSharedSecret_eq)
qed


section \<open>The claims about the handshake and the command handlers\<close>




text \<open>
  Claim C3 (as amended). A REGULAR message that arrives on a connection that is not
  authenticated, with an HMAC other than the bypass value \<open>FA DE DB ED\<close>, is answered by
  the Warning/Unauthenticated\_Message log row alone: nothing is written to the socket,
  no device data is stored and the connection is unchanged. A REGULAR message whose body
  parses as a presentation message with a command, which is so exactly when the body has
  at least three bytes, is passed to \<open>handleCommand\<close> if and only if the connection is
  authenticated or its HMAC is the bypass value. A REGULAR message that passes this gate
  with a body of fewer than three bytes is passed to no handler: the server logs
  Error/Command\_Parse\_Error alone, and the connection is unchanged.
\<close>

theorem C3_regular_gate:
  "(\<not> authenticated c \<and> \<not> isBypassHMAC (hmac m) \<longrightarrow>
      handleRegularMessage c m =
        [LogCommunication (lawnmower_id c) Warning ''Unauthenticated_Message''
           (Text ''Received message from unauthenticated connection'')])
   \<and> (parsePresentationMessage (payload m) = Inr pm \<and> parseCommand (pres_payload pm) = Inr cmd \<longrightarrow>
        (handleRegularMessage c m = handleCommand c (iin pm) cmd
           \<longleftrightarrow> authenticated c \<or> isBypassHMAC (hmac m)))
   \<and> (length h = 4 \<and> \<not> authenticated c \<and> \<not> isBypassHMAC h \<longrightarrow>
        processFrame rnd c (h @ REGULAR # body) =
          (c, [LogCommunication (lawnmower_id c) Warning ''Unauthenticated_Message''
                 (Text ''Received message from unauthenticated connection'')]))
   \<and> (3 \<le> length (payload m) \<longleftrightarrow>
        (\<exists>pm' cmd'. parsePresentationMessage (payload m) = Inr pm'
            \<and> parseCommand (pres_payload pm') = Inr cmd'))
   \<and> ((authenticated c \<or> isBypassHMAC (hmac m)) \<and> length (payload m) < 3 \<longrightarrow>
        handleRegularMessage c m =
          [LogCommunication (lawnmower_id c) Error ''Command_Parse_Error''
             (Text (''Failed to parse command: ''
                    @ (if length (payload m) < 2 then ''Presentation message too short''
                       else ''Command too short'')))])
   \<and> (length h = 4 \<and> (authenticated c \<or> isBypassHMAC h) \<and> length body < 3 \<longrightarrow>
        processFrame rnd c (h @ REGULAR # body) =
          (c, [LogCommunication (lawnmower_id c) Error ''Command_Parse_Error''
                 (Text (''Failed to parse command: ''
                        @ (if length body < 2 then ''Presentation message too short''
                           else ''Command too short'')))]))"
proof (intro conjI impI)
  assume "\<not> authenticated c \<and> \<not> isBypassHMAC (hmac m)"
  then show "handleRegularMessage c m =
        [LogCommunication (lawnmower_id c) Warning ''Unauthenticated_Message''
           (Text ''Received message from unauthenticated connection'')]"
    by (simp add: handleRegularMessage_rejected)
next
  assume p: "parsePresentationMessage (payload m) = Inr pm \<and> parseCommand (pres_payload pm) = Inr cmd"
  show "(handleRegularMessage c m = handleCommand c (iin pm) cmd)
           \<longleftrightarrow> (authenticated c \<or> isBypassHMAC (hmac m))"
  proof
    assume eq: "handleRegularMessage c m = handleCommand c (iin pm) cmd"
    show "authenticated c \<or> isBypassHMAC (hmac m)"
    proof (rule ccontr)
      assume "\<not> (authenticated c \<or> isBypassHMAC (hmac m))"
      then have "handleRegularMessage c m =
        [LogCommunication (lawnmower_id c) Warning ''Unauthenticated_Message''
           (Text ''Received message from unauthenticated connection'')]"
        by (simp add: handleRegularMessage_rejected)
      with eq handleCommand_not_rejection[of c "iin pm" cmd] show False by simp
    qed
  next
    assume "authenticated c \<or> isBypassHMAC (hmac m)"
    with p show "handleRegularMessage c m = handleCommand c (iin pm) cmd"
      by (simp add: handleRegularMessage_accepted)
  qed
next
  assume a: "length h = 4 \<and> \<not> authenticated c \<and> \<not> isBypassHMAC h"
  then show "processFrame rnd c (h @ REGULAR # body) =
          (c, [LogCommunication (lawnmower_id c) Warning ''Unauthenticated_Message''
                 (Text ''Received message from unauthenticated connection'')])"
    by (simp add: processFrame_regular handleRegularMessage_rejected)
next
  show "3 \<le> length (payload m) \<longleftrightarrow>
        (\<exists>pm' cmd'. parsePresentationMessage (payload m) = Inr pm'
            \<and> parseCommand (pres_payload pm') = Inr cmd')"
    by (rule regular_body_parses_iff)
next
  assume "(authenticated c \<or> isBypassHMAC (hmac m)) \<and> length (payload m) < 3"
  then show "handleRegularMessage c m =
          [LogCommunication (lawnmower_id c) Error ''Command_Parse_Error''
             (Text (''Failed to parse command: ''
                    @ (if length (payload m) < 2 then ''Presentation message too short''
                       else ''Command too short'')))]"
    by (intro handleRegularMessage_parse_error) simp_all
next
  assume a: "length h = 4 \<and> (authenticated c \<or> isBypassHMAC h) \<and> length body < 3"
  let ?m = "\<lparr>hmac = h, messageType = REGULAR, payload = body\<rparr>"
  from a have "authenticated c \<or> isBypassHMAC (hmac ?m)" "length (payload ?m) < 3" by simp_all
  from handleRegularMessage_parse_error[OF this]
  show "processFrame rnd c (h @ REGULAR # body) =
          (c, [LogCommunication (lawnmower_id c) Error ''Command_Parse_Error''
                 (Text (''Failed to parse command: ''
                        @ (if length body < 2 then ''Presentation message too short''
                           else ''Command too short'')))])"
    using a by (simp add: processFrame_regular)
qed

theorem C3_regular_gate_witness:
  "\<not> authenticated (newConnection 7)
   \<and> \<not> isBypassHMAC [0x00, 0x00, 0x00, 0x00]
   \<and> length [0x00, 0x00, 0x00, 0x00 :: byte] = 4
   \<and> parsePresentationMessage [0x00, 0x01, 0x01, 0x01] = Inr \<lparr>iin = 1, pres_payload = [0x01, 0x01]\<rparr>
   \<and> parseCommand [0x01, 0x01] = Inr \<lparr>command = 0x01, cmd_payload = [0x01]\<rparr>
   \<and> handleRegularMessage (newConnection 7)
         \<lparr>hmac = [0x00, 0x00, 0x00, 0x00], messageType = REGULAR, payload = [0x00, 0x01, 0x01, 0x01]\<rparr>
       \<noteq> handleCommand (newConnection 7) 1 \<lparr>command = 0x01, cmd_payload = [0x01]\<rparr>
   \<and> processFrame (3, 0) (newConnection 7) ([0x00, 0x00, 0x00, 0x00] @ REGULAR # [0x00, 0x01, 0x01, 0x01])
       = (newConnection 7,
          [LogCommunication 7 Warning ''Unauthenticated_Message''
             (Text ''Received message from unauthenticated connection'')])
   \<and> isBypassHMAC [0xFA, 0xDE, 0xDB, 0xED]
   \<and> length [0xFA, 0xDE, 0xDB, 0xED :: byte] = 4 \<and> length [0x00, 0x01 :: byte] < 3
   \<and> processFrame (3, 0) (newConnection 7) ([0xFA, 0xDE, 0xDB, 0xED] @ REGULAR # [0x00, 0x01])
       = (newConnection 7,
          [LogCommunication 7 Error ''Command_Parse_Error''
             (Text ''Failed to parse command: Command too short'')])"
proof -
  let ?c = "newConnection 7"
  let ?m = "\<lparr>hmac = [0x00, 0x00, 0x00, 0x00], messageType = REGULAR, payload = [0x00, 0x01, 0x01, 0x01 :: byte]\<rparr>"
  let ?pm = "\<lparr>iin = 1, pres_payload = [0x01, 0x01 :: byte]\<rparr>"
  let ?cmd = "\<lparr>command = 0x01, cmd_payload = [0x01 :: byte]\<rparr>"
  have h1: "\<not> authenticated ?c" by (simp add: newConnection_def)
  have h2: "\<not> isBypassHMAC [0x00, 0x00, 0x00, 0x00]" by (simp add: isBypassHMAC_def getBypassHMAC_def)
  have h3: "length [0x00, 0x00, 0x00, 0x00 :: byte] = 4" by simp
  have h4: "parsePresentationMessage [0x00, 0x01, 0x01, 0x01] = Inr ?pm"
    by (simp add: parsePresentationMessage_def readUInt16BE_def)
  have h5: "parseCommand [0x01, 0x01] = Inr ?cmd"
    by (simp add: parseCommand_def)
  have h6: "isBypassHMAC [0xFA, 0xDE, 0xDB, 0xED]" by (simp add: isBypassHMAC_def getBypassHMAC_def)
  have h7: "length [0xFA, 0xDE, 0xDB, 0xED :: byte] = 4 \<and> length [0x00, 0x01 :: byte] < 3" by simp
  have lid: "lawnmower_id ?c = 7" by (simp add: newConnection_def)
  note T = C3_regular_gate[where c = ?c and m = ?m and pm = ?pm and cmd = ?cmd
      and h = "[0x00, 0x00, 0x00, 0x00]" and rnd = "(3, 0)" and body = "[0x00, 0x01, 0x01, 0x01]"]
  note S = C3_regular_gate[where c = ?c and h = "[0xFA, 0xDE, 0xDB, 0xED]" and rnd = "(3, 0)"
      and body = "[0x00, 0x01]"]
  have ng: "\<not> authenticated ?c \<and> \<not> isBypassHMAC (hmac ?m)" using h1 h2 by simp
  have pre: "parsePresentationMessage (payload ?m) = Inr ?pm \<and> parseCommand (pres_payload ?pm) = Inr ?cmd"
    using h4 h5 by simp
  have ng': "length [0x00, 0x00, 0x00, 0x00 :: byte] = 4 \<and> \<not> authenticated ?c
      \<and> \<not> isBypassHMAC [0x00, 0x00, 0x00, 0x00]"
    using h1 h2 by simp
  from T pre have iff: "handleRegularMessage ?c ?m = handleCommand ?c (iin ?pm) ?cmd
      \<longleftrightarrow> authenticated ?c \<or> isBypassHMAC (hmac ?m)"
    by blast
  with ng have "handleRegularMessage ?c ?m \<noteq> handleCommand ?c (iin ?pm) ?cmd" by blast
  then have r2: "handleRegularMessage ?c ?m \<noteq> handleCommand ?c 1 ?cmd" by simp
  from T ng' have "processFrame (3, 0) ?c ([0x00, 0x00, 0x00, 0x00] @ REGULAR # [0x00, 0x01, 0x01, 0x01])
      = (?c, [LogCommunication (lawnmower_id ?c) Warning ''Unauthenticated_Message''
                (Text ''Received message from unauthenticated connection'')])"
    by blast
  then have r3: "processFrame (3, 0) ?c ([0x00, 0x00, 0x00, 0x00] @ REGULAR # [0x00, 0x01, 0x01, 0x01])
      = (?c, [LogCommunication 7 Warning ''Unauthenticated_Message''
                (Text ''Received message from unauthenticated connection'')])"
    by (simp only: lid)
  have g: "length [0xFA, 0xDE, 0xDB, 0xED :: byte] = 4
      \<and> (authenticated ?c \<or> isBypassHMAC [0xFA, 0xDE, 0xDB, 0xED]) \<and> length [0x00, 0x01 :: byte] < 3"
    using h6 by simp
  from S g have "processFrame (3, 0) ?c ([0xFA, 0xDE, 0xDB, 0xED] @ REGULAR # [0x00, 0x01])
      = (?c, [LogCommunication (lawnmower_id ?c) Error ''Command_Parse_Error''
                (Text (''Failed to parse command: ''
                       @ (if length [0x00, 0x01 :: byte] < 2 then ''Presentation message too short''
                          else ''Command too short'')))])"
    by blast
  then have r4: "processFrame (3, 0) ?c ([0xFA, 0xDE, 0xDB, 0xED] @ REGULAR # [0x00, 0x01])
      = (?c, [LogCommunication 7 Error ''Command_Parse_Error''
                (Text ''Failed to parse command: Command too short'')])"
    by (simp add: lid)
  from h1 h2 h3 h4 h5 r2 r3 h6 h7 r4 show ?thesis by (intro conjI) (elim conjE, assumption)+
qed

text \<open>
  Counterexample to C3 as stated: on an authenticated connection a REGULAR message whose
  body is the IIN alone, with no command byte, is not passed to a command handler; the
  server logs Command\_Parse\_Error.
\<close>

theorem C3_counterexample:
  "authenticated (newConnection 7\<lparr>authenticated := True, sharedSecret := Some 1\<rparr>)
   \<and> handleRegularMessage (newConnection 7\<lparr>authenticated := True, sharedSecret := Some 1\<rparr>)
         \<lparr>hmac = [0x00, 0x00, 0x00, 0x00], messageType = REGULAR, payload = [0x00, 0x01]\<rparr>
       = [LogCommunication 7 Error ''Command_Parse_Error''
            (Text ''Failed to parse command: Command too short'')]"
  by (simp add: handleRegularMessage_def parsePresentationMessage_def parseCommand_def
        newConnection_def)



text \<open>
  Claim C6. For every ControlDevice request (command \<open>0x01\<close>) that passes the
  authentication gate and whose body starts with an action byte \<open>0x00\<close> (STOP), \<open>0x01\<close>
  (START) or \<open>0x02\<close> (HOME), the handler asks the database to insert the mapped device
  state (Paused, Mowing, ReturningToStation), writes one frame whose session message is
  HMAC, type REGULAR, the IIN of the request and the command byte \<open>0x81\<close> with an empty
  body, and logs Control\_Command.
\<close>

theorem C6_control_device:
  assumes "authenticated c \<or> isBypassHMAC (hmac m)"
    and "parsePresentationMessage (payload m) = Inr pm"
    and "parseCommand (pres_payload pm) = Inr cmd"
    and "command cmd = CONTROL_DEVICE"
    and "cmd_payload cmd = action # rest"
    and "(action, name, st) \<in> {(0x00, ''STOP'', ''Paused''), (0x01, ''START'', ''Mowing''),
                   (0x02, ''HOME'', ''ReturningToStation'')}"
  shows "handleRegularMessage c m =
     [UpdateDeviceState (lawnmower_id c) st,
      SocketWrite (createFrame
        ((if authenticated c
          then createAuthenticatedHMAC (sharedSecret c) (writeUInt16BE (iin pm) @ [0x81])
          else [0xFA, 0xDE, 0xDB, 0xED])
         @ [0x00] @ writeUInt16BE (iin pm) @ [0x81])),
      LogCommunication (lawnmower_id c) Information ''Control_Command''
        (Text (''Control action '' @ name @ '' executed, new state: '' @ st))]"
proof -
  have "handleRegularMessage c m = handleCommand c (iin pm) cmd"
    using assms(1,2,3) by (rule handleRegularMessage_accepted)
  also have "\<dots> = handleControlDevice c (iin pm) (action # rest)"
    using assms(4,5) by (simp add: handleCommand_def CONTROL_DEVICE_def HEARTBEAT_def)
  finally show ?thesis
    using assms(6)
    by (auto simp: handleControlDevice_def Let_def STOP_def START_def HOME_def REGULAR_def
          createCommand_def createPresentationMessage_def createSessionMessage_def getBypassHMAC_def)
qed

theorem C6_control_device_witness:
  "isBypassHMAC [0xFA, 0xDE, 0xDB, 0xED]
   \<and> parsePresentationMessage [0x00, 0x01, 0x01, 0x01] = Inr \<lparr>iin = 1, pres_payload = [0x01, 0x01]\<rparr>
   \<and> parseCommand [0x01, 0x01] = Inr \<lparr>command = 0x01, cmd_payload = [0x01]\<rparr>
   \<and> handleRegularMessage (newConnection 7)
         \<lparr>hmac = [0xFA, 0xDE, 0xDB, 0xED], messageType = REGULAR, payload = [0x00, 0x01, 0x01, 0x01]\<rparr>
       = [UpdateDeviceState 7 ''Mowing'',
          SocketWrite (createFrame ([0xFA, 0xDE, 0xDB, 0xED] @ [0x00] @ [0x00, 0x01] @ [0x81])),
          LogCommunication 7 Information ''Control_Command''
            (Text ''Control action START executed, new state: Mowing'')]"
proof -
  let ?c = "newConnection 7"
  let ?m = "\<lparr>hmac = [0xFA, 0xDE, 0xDB, 0xED], messageType = REGULAR, payload = [0x00, 0x01, 0x01, 0x01 :: byte]\<rparr>"
  let ?pm = "\<lparr>iin = 1, pres_payload = [0x01, 0x01 :: byte]\<rparr>"
  let ?cmd = "\<lparr>command = 0x01, cmd_payload = [0x01 :: byte]\<rparr>"
  have b: "isBypassHMAC [0xFA, 0xDE, 0xDB, 0xED]" by (simp add: isBypassHMAC_def getBypassHMAC_def)
  then have h1: "authenticated ?c \<or> isBypassHMAC (hmac ?m)" by simp
  have p: "parsePresentationMessage [0x00, 0x01, 0x01, 0x01] = Inr ?pm"
    by (simp add: parsePresentationMessage_def readUInt16BE_def)
  then have h2: "parsePresentationMessage (payload ?m) = Inr ?pm" by simp
  have q: "parseCommand [0x01, 0x01] = Inr ?cmd" by (simp add: parseCommand_def)
  then have h3: "parseCommand (pres_payload ?pm) = Inr ?cmd" by simp
  have h4: "command ?cmd = CONTROL_DEVICE" by (simp add: CONTROL_DEVICE_def)
  have h5: "cmd_payload ?cmd = 0x01 # []" by simp
  have h6: "(0x01 :: byte, ''START'', ''Mowing'') \<in> {(0x00, ''STOP'', ''Paused''), (0x01, ''START'', ''Mowing''),
                   (0x02, ''HOME'', ''ReturningToStation'')}" by simp
  have w: "writeUInt16BE 1 = [0x00, 0x01]" by (simp add: writeUInt16BE_def)
  have "handleRegularMessage ?c ?m
       = [UpdateDeviceState 7 ''Mowing'',
          SocketWrite (createFrame ([0xFA, 0xDE, 0xDB, 0xED] @ [0x00] @ [0x00, 0x01] @ [0x81])),
          LogCommunication 7 Information ''Control_Command''
            (Text ''Control action START executed, new state: Mowing'')]"
    using C6_control_device[OF h1 h2 h3 h4 h5 h6]
    by (simp add: w newConnection_def)
  with b p q show ?thesis by (intro conjI)
qed

section \<open>The claim about device status notifications\<close>

text \<open>
  Claim C9 (as amended). A DeviceStatus notification (ntype \<open>0x00\<close>) whose body is shorter
  than six bytes is dropped in silence: the handler returns at once, so there is no
  telemetry call, no state change, nothing written to the socket and no log row, not even
  a Warning.
\<close>

theorem C9_short_status_dropped:
  assumes "length data < 6"
  shows "handleDeviceStatusNotification c data = []
       \<and> handleNotification c \<lparr>hmac = h, messageType = NOTIFICATION, payload = DEVICE_STATUS # data\<rparr> = []
       \<and> (length h = 4 \<longrightarrow> processFrame rnd c (h @ NOTIFICATION # DEVICE_STATUS # data) = (c, []))"
  using assms
  by (simp add: handleDeviceStatusNotification_def handleNotification_def processFrame_def
        parseSessionMessage_def slice_def nth_append
        NOTIFICATION_def DEVICE_STATUS_def REGULAR_def HELLO_def CLIENT_AUTH_def)

theorem C9_short_status_dropped_witness:
  "length [0xC8, 0x00, 0x00, 0x04, 0xB0 :: byte] < 6
   \<and> length [0x00, 0x00, 0x00, 0x00 :: byte] = 4
   \<and> handleDeviceStatusNotification (newConnection 7) [0xC8, 0x00, 0x00, 0x04, 0xB0] = []
   \<and> processFrame (3, 0) (newConnection 7)
        ([0x00, 0x00, 0x00, 0x00] @ NOTIFICATION # DEVICE_STATUS # [0xC8, 0x00, 0x00, 0x04, 0xB0])
       = (newConnection 7, [])"
proof -
  have h1: "length [0xC8, 0x00, 0x00, 0x04, 0xB0 :: byte] < 6" by simp
  have h2: "length [0x00, 0x00, 0x00, 0x00 :: byte] = 4" by simp
  from C9_short_status_dropped[OF h1, where c = "newConnection 7" and h = "[0x00, 0x00, 0x00, 0x00]"
      and rnd = "(3, 0)"] h1 h2
  show ?thesis by blast
qed

text \<open>
  Counterexample to C9 as stated: for a DeviceStatus notification with a body of five
  bytes the server logs nothing, so it logs no Warning.
\<close>

theorem C9_counterexample:
  "processFrame (3, 0) (newConnection 7)
       [0x00, 0x00, 0x00, 0x00, 0x80, 0x00, 0xC8, 0x00, 0x00, 0x04, 0xB0]
     = (newConnection 7, [])"
  by (simp add: processFrame_def parseSessionMessage_def slice_def handleNotification_def
        handleDeviceStatusNotification_def
        NOTIFICATION_def DEVICE_STATUS_def REGULAR_def HELLO_def CLIENT_AUTH_def)

section \<open>The claim about the HMAC of authenticated traffic\<close>

text \<open>
  Claim C10. On an authenticated connection the handling of a REGULAR message does not
  depend on the HMAC field of the message: two messages that differ in that field only
  lead to the same frames written, the same log rows and the same device data stored,
  and leave the connection the same. The HMAC received is never compared with the MAC
  under the shared secret.
\<close>

theorem C10_hmac_ignored:
  assumes "authenticated c"
  shows "handleRegularMessage c (m\<lparr>hmac := ha\<rparr>) = handleRegularMessage c (m\<lparr>hmac := hb\<rparr>)
       \<and> (length ha = 4 \<and> length hb = 4 \<longrightarrow>
            processFrame rnd c (ha @ REGULAR # body) = processFrame rnd c (hb @ REGULAR # body))"
  using assms by (simp add: handleRegularMessage_def processFrame_regular)

theorem C10_hmac_ignored_witness:
  "authenticated (newConnection 7\<lparr>authenticated := True, sharedSecret := Some 0x12345678\<rparr>)
   \<and> length [0x00, 0x00, 0x00, 0x00 :: byte] = 4 \<and> length [0x11, 0x22, 0x33, 0x44 :: byte] = 4
   \<and> processFrame (3, 0) (newConnection 7\<lparr>authenticated := True, sharedSecret := Some 0x12345678\<rparr>)
        ([0x00, 0x00, 0x00, 0x00] @ REGULAR # [0x00, 0x01, 0x01, 0x01])
     = processFrame (3, 0) (newConnection 7\<lparr>authenticated := True, sharedSecret := Some 0x12345678\<rparr>)
        ([0x11, 0x22, 0x33, 0x44] @ REGULAR # [0x00, 0x01, 0x01, 0x01])"
proof -
  have h1: "authenticated (newConnection 7\<lparr>authenticated := True, sharedSecret := Some 0x12345678\<rparr>)"
    by simp
  have h2: "length [0x00, 0x00, 0x00, 0x00 :: byte] = 4 \<and> length [0x11, 0x22, 0x33, 0x44 :: byte] = 4"
    by simp
  from C10_hmac_ignored[OF h1, where ha = "[0x00, 0x00, 0x00, 0x00]" and hb = "[0x11, 0x22, 0x33, 0x44]"
      and rnd = "(3, 0)" and body = "[0x00, 0x01, 0x01, 0x01]"] h1 h2
  show ?thesis by blast
qed

end
